theory Spec2Isabelle
  imports Main "HOL-Library.AList" "HOL-Library.Char_ord" "HOL-Library.List_Lexorder"
begin

section \<open>Property paths\<close>

text \<open>
  The figure engine of \<^verbatim>\<open>plotly/basedatatypes.py\<close> addresses nested properties by
  key path strings such as \<^verbatim>\<open>'foo.bar[1]'\<close>. A parsed path is a tuple whose elements
  are strings or integers. Strings are modelled as lists of characters with code points
  below 256 (Python's \<^verbatim>\<open>str\<close> restricted to Latin-1); the decimal digits of that
  range are \<^verbatim>\<open>0\<close> to \<^verbatim>\<open>9\<close>.
\<close>

datatype key = KStr string | KInt int

text \<open>\<^verbatim>\<open>key_path_str.split('.')\<close>: always at least one piece.\<close>

fun split_dot :: "string \<Rightarrow> string list" where
  "split_dot [] = [[]]"
| "split_dot (c # cs) =
     (if c = CHR ''.'' then [] # split_dot cs
      else (case split_dot cs of [] \<Rightarrow> [[c]] | x # xs \<Rightarrow> (c # x) # xs))"

definition is_digit :: "char \<Rightarrow> bool" where
  "is_digit c \<longleftrightarrow> 48 \<le> (of_char c :: nat) \<and> (of_char c :: nat) \<le> 57"

definition digit_val :: "char \<Rightarrow> nat" where
  "digit_val c = (of_char c :: nat) - 48"

text \<open>
  \<^verbatim>\<open>re.compile('(.*)\[(\d+)\]').fullmatch(key)\<close>: the key is some text without a
  newline, an opening bracket, one or more digits and a closing bracket. The digits
  hold no bracket, so the two groups are determined by the last opening bracket.
\<close>

definition bracket_match :: "string \<Rightarrow> (string \<times> string) option" where
  "bracket_match s =
     (case rev s of
        [] \<Rightarrow> None
      | c # r \<Rightarrow>
          if c \<noteq> CHR '']'' then None
          else (case dropWhile is_digit r of
                  [] \<Rightarrow> None
                | b # x \<Rightarrow>
                    if b = CHR ''['' \<and> takeWhile is_digit r \<noteq> [] \<and> CHR 0x0A \<notin> set x
                    then Some (rev x, rev (takeWhile is_digit r))
                    else None))"

text \<open>
  \<^verbatim>\<open>int(s)\<close> on a string, base 10: surrounding whitespace is dropped, one sign is
  allowed, then digits, where single underscores may stand between digits. The result is
  \<open>None\<close> where Python raises \<^verbatim>\<open>ValueError\<close>. The limit that recent interpreters put
  on the number of digits is not modelled.
\<close>

definition is_space :: "char \<Rightarrow> bool" where
  "is_space c \<longleftrightarrow> (of_char c :: nat) \<in> {9, 10, 11, 12, 13, 32, 133, 160}"

fun parse_digits :: "nat \<Rightarrow> string \<Rightarrow> nat option" where
  "parse_digits acc [] = Some acc"
| "parse_digits acc (c # cs) =
     (if is_digit c then parse_digits (acc * 10 + digit_val c) cs
      else if c = CHR ''_'' then
        (case cs of
           [] \<Rightarrow> None
         | d # ds \<Rightarrow> if is_digit d then parse_digits (acc * 10 + digit_val d) ds else None)
      else None)"

definition parse_number :: "string \<Rightarrow> nat option" where
  "parse_number s =
     (case s of
        [] \<Rightarrow> None
      | c # cs \<Rightarrow> if is_digit c then parse_digits (digit_val c) cs else None)"

definition strip :: "string \<Rightarrow> string" where
  "strip s = rev (dropWhile is_space (rev (dropWhile is_space s)))"

definition py_int :: "string \<Rightarrow> int option" where
  "py_int s =
     (case strip s of
        [] \<Rightarrow> None
      | c # cs \<Rightarrow>
          if c = CHR ''-'' then map_option (\<lambda>n. - int n) (parse_number cs)
          else if c = CHR ''+'' then map_option int (parse_number cs)
          else map_option int (parse_number (c # cs)))"

text \<open>
  \<^verbatim>\<open>BaseFigure._str_to_dict_path\<close> on a string: split on periods, split a bracket
  index off each piece, then turn every element that \<^verbatim>\<open>int\<close> accepts into an integer.
\<close>

definition split_bracket :: "string \<Rightarrow> string list" where
  "split_bracket k = (case bracket_match k of Some (x, d) \<Rightarrow> [x, d] | None \<Rightarrow> [k])"

definition to_key :: "string \<Rightarrow> key" where
  "to_key x = (case py_int x of Some i \<Rightarrow> KInt i | None \<Rightarrow> KStr x)"

definition str_to_dict_path :: "string \<Rightarrow> key list" where
  "str_to_dict_path key_path_str =
     map to_key (concat (map split_bracket (split_dot key_path_str)))"

subsection \<open>The serialized form of a path\<close>

text \<open>\<^verbatim>\<open>str(n)\<close> for a natural number and for an integer.\<close>

definition digit_char :: "nat \<Rightarrow> char" where
  "digit_char d = char_of (48 + d)"

function digits_of :: "nat \<Rightarrow> string" where
  "digits_of n = (if n < 10 then [digit_char n] else digits_of (n div 10) @ [digit_char (n mod 10)])"
  by pat_completeness auto
termination
  by (relation "measure id") auto

declare digits_of.simps [simp del]

definition str_of_int :: "int \<Rightarrow> string" where
  "str_of_int i = (if i < 0 then CHR ''-'' # digits_of (nat (- i)) else digits_of (nat i))"

text \<open>
  The serialized form as the specification words it: field names joined on periods,
  integer indexes wrapped in brackets (\<^verbatim>\<open>marker.size[0]\<close>). An index is written
  directly after the segment before it; a field name that is not the first segment is
  preceded by a period.
\<close>

fun serialize_seg :: "key \<Rightarrow> string" where
  "serialize_seg (KStr n) = n"
| "serialize_seg (KInt i) = CHR ''['' # str_of_int i @ '']''"

fun serialize_rest :: "key list \<Rightarrow> string" where
  "serialize_rest [] = []"
| "serialize_rest (KStr n # ks) = CHR ''.'' # n @ serialize_rest ks"
| "serialize_rest (KInt i # ks) = serialize_seg (KInt i) @ serialize_rest ks"

fun serialize_path :: "key list \<Rightarrow> string" where
  "serialize_path [] = []"
| "serialize_path (k # ks) = serialize_seg k @ serialize_rest ks"

text \<open>
  The paths on which parsing undoes serialization: a non-empty sequence of groups, each a
  field name optionally followed by one non-negative index. A field name holds no
  period and is not accepted by \<^verbatim>\<open>int\<close>; a name followed by an index holds no
  newline (the regular expression's \<^verbatim>\<open>.\<close> does not match one), and a name that is
  not followed by an index does not itself end in a bracket index.
\<close>

fun wf_segs :: "key list \<Rightarrow> bool" where
  "wf_segs [] = True"
| "wf_segs (KStr n # KInt i # ks) =
     (CHR ''.'' \<notin> set n \<and> py_int n = None \<and> CHR 0x0A \<notin> set n \<and> 0 \<le> i \<and> wf_segs ks)"
| "wf_segs (KStr n # ks) =
     (CHR ''.'' \<notin> set n \<and> py_int n = None \<and> bracket_match n = None \<and> wf_segs ks)"
| "wf_segs (KInt i # ks) = False"

definition wf_path :: "key list \<Rightarrow> bool" where
  "wf_path p \<longleftrightarrow> p \<noteq> [] \<and> wf_segs p"

text \<open>The pieces between the periods of the serialized form of such a path.\<close>

fun pieces :: "key list \<Rightarrow> string list" where
  "pieces [] = []"
| "pieces (KStr n # KInt i # ks) = (n @ serialize_seg (KInt i)) # pieces ks"
| "pieces (KStr n # ks) = n # pieces ks"
| "pieces (KInt i # ks) = serialize_seg (KInt i) # pieces ks"

section \<open>Values and errors\<close>

text \<open>
  The Python values that the property dicts hold: \<^verbatim>\<open>None\<close>, the module's
  \<^verbatim>\<open>Undefined\<close> sentinel (\<^verbatim>\<open>Undefined = object()\<close>), integers, strings, the float
  \<^verbatim>\<open>nan\<close>, lists and dicts. A dict is an association list in insertion order; its keys
  are path elements (strings or integers). \<^verbatim>\<open>nan\<close> is the one value that \<^verbatim>\<open>==\<close> does
  not relate to itself; the other floats, tuples and numpy arrays are outside the model.
  A list or dict is a value here, not an object: this describes a figure in which no two
  places hold the same list or dict object. The last section holds the data by reference.
\<close>

datatype pyval =
    PNone
  | Undefined
  | PInt int
  | PStr string
  | PNaN
  | PList "pyval list"
  | PDict "(key \<times> pyval) list"

text \<open>
  What the message of the \<^verbatim>\<open>ValueError\<close> of the \<^verbatim>\<open>data\<close> setter says after its header:
  the type of the value, the type of an element, invalid uids, duplicated uids.
\<close>

datatype data_problem =
    ReceivedType
  | ReceivedElementType
  | InvalidTraceUids
  | DuplicatedTraceUids

datatype value_error =
    TraceIndexOutOfRange int
  | InvalidPropertyPath string
  | CannotRemoveElement
  | CannotSetElement
  | InvalidDataAssignment data_problem
  | InvalidValue

datatype error =
    ValueError value_error
  | TypeError
  | IndexError
  | KeyError
  | ZeroDivisionError
  | AssertionError
  | AttributeError
  | RecursionError

subsection \<open>Deep equality\<close>

text \<open>
  \<^verbatim>\<open>BasePlotlyType._vals_equal\<close>. On lists: same length and equal elementwise. On
  dicts: the same key set and equal values under every key of the first dict. Otherwise
  Python's \<^verbatim>\<open>==\<close>: plain equality on the other values of the model, and false for
  \<^verbatim>\<open>nan\<close> against anything, itself included.
\<close>

function vals_equal :: "pyval \<Rightarrow> pyval \<Rightarrow> bool" where
  "vals_equal (PList xs) v2 =
     (case v2 of
        PList ys \<Rightarrow> length xs = length ys \<and> list_all (\<lambda>(e1, e2). vals_equal e1 e2) (zip xs ys)
      | _ \<Rightarrow> False)"
| "vals_equal (PDict d1) v2 =
     (case v2 of
        PDict d2 \<Rightarrow>
          set (map fst d1) = set (map fst d2) \<and>
          list_all (\<lambda>k. case (map_of d1 k, map_of d2 k) of
                           (Some x, Some y) \<Rightarrow> vals_equal x y
                         | _ \<Rightarrow> False) (map fst d1)
      | _ \<Rightarrow> False)"
| "vals_equal PNone v2 = (PNone = v2)"
| "vals_equal Undefined v2 = (Undefined = v2)"
| "vals_equal (PInt i) v2 = (PInt i = v2)"
| "vals_equal (PStr s) v2 = (PStr s = v2)"
| "vals_equal PNaN v2 = False"
  by pat_completeness auto

termination
proof (relation "measure (\<lambda>(a, b). size a)", goal_cases)
  case 1
  show ?case by simp
next
  case (2 xs v2 ys p e1 e2)
  have z: "(a, b) \<in> set (zip as bs) \<Longrightarrow> size a < Suc (size_list size as)"
    for a b :: pyval and as bs
  proof (induction as arbitrary: bs)
    case Nil
    then show ?case by simp
  next
    case (Cons c cs)
    then show ?case by (cases bs) force+
  qed
  from 2 have "(e1, e2) \<in> set (zip xs ys)" by simp
  from z [OF this] show ?case by simp
next
  case (3 d1 v2 d2 k a b x y)
  have m: "map_of d k' = Some x' \<Longrightarrow> size x' < Suc (size_list (size_prod (\<lambda>_. 0) size) d)"
    for d :: "(key \<times> pyval) list" and k' x'
    by (induction d) (auto split: if_splits)
  from 3 have "map_of d1 k = Some x" by simp
  from m [OF this] show ?case by simp
qed

text \<open>A value that holds no \<^verbatim>\<open>nan\<close>.\<close>

fun nan_free :: "pyval \<Rightarrow> bool" where
  "nan_free PNaN = False"
| "nan_free (PList xs) = list_all nan_free xs"
| "nan_free (PDict d) = list_all nan_free (map snd d)"
| "nan_free v = True"

section \<open>Writing at a path\<close>

text \<open>
  Python's indexing of a sequence by an integer: negative indexes count from the end,
  anything out of range raises \<^verbatim>\<open>IndexError\<close>.
\<close>

definition py_pos :: "'a list \<Rightarrow> int \<Rightarrow> nat" where
  "py_pos xs i = (if i < 0 then nat (int (length xs) + i) else nat i)"

definition py_index :: "'a list \<Rightarrow> int \<Rightarrow> error + 'a" where
  "py_index xs i =
     (if - int (length xs) \<le> i \<and> i < int (length xs) then Inr (xs ! py_pos xs i)
      else Inl IndexError)"

text \<open>\<^verbatim>\<open>val_parent[key_path_el]\<close> on the values of the model.\<close>

fun py_getitem :: "pyval \<Rightarrow> key \<Rightarrow> error + pyval" where
  "py_getitem (PDict d) k = (case map_of d k of Some x \<Rightarrow> Inr x | None \<Rightarrow> Inl KeyError)"
| "py_getitem (PList xs) (KInt i) = py_index xs i"
| "py_getitem (PList xs) (KStr s) = Inl TypeError"
| "py_getitem (PStr s) (KInt i) =
     (case py_index s i of Inl e \<Rightarrow> Inl e | Inr c \<Rightarrow> Inr (PStr [c]))"
| "py_getitem (PStr s) (KStr n) = Inl TypeError"
| "py_getitem PNone k = Inl TypeError"
| "py_getitem Undefined k = Inl TypeError"
| "py_getitem (PInt i) k = Inl TypeError"
| "py_getitem PNaN k = Inl TypeError"

text \<open>\<^verbatim>\<open>while len(val_parent) <= key: val_parent.append(None)\<close>\<close>

definition pad_none :: "pyval list \<Rightarrow> int \<Rightarrow> pyval list" where
  "pad_none xs i = xs @ replicate (nat (i + 1) - length xs) PNone"

text \<open>
  One round of the loop over \<^verbatim>\<open>key_path[:-1]\<close> in \<^verbatim>\<open>BaseFigure._set_in\<close>, before the
  parent is indexed: a list parent is padded for an integer key, a dict parent gets an
  empty list or dict under a missing key, depending on the key that follows.
\<close>

fun extend_parent :: "pyval \<Rightarrow> key \<Rightarrow> key \<Rightarrow> pyval" where
  "extend_parent (PList xs) (KInt i) nxt = PList (pad_none xs i)"
| "extend_parent (PDict d) k nxt =
     (if map_of d k = None
      then PDict (d @ [(k, case nxt of KInt j \<Rightarrow> PList [] | KStr n \<Rightarrow> PDict [])])
      else PDict d)"
| "extend_parent vp k nxt = vp"

text \<open>
  The containers are mutated in place. In the model a container is a value, so the
  mutated child is put back into its parent at the key it was read from. Strings are
  immutable and nothing below them changes.
\<close>

fun replace_child :: "pyval \<Rightarrow> key \<Rightarrow> pyval \<Rightarrow> pyval" where
  "replace_child (PDict d) k c = PDict (AList.update k c d)"
| "replace_child (PList xs) (KInt i) c = PList (xs[py_pos xs i := c])"
| "replace_child vp k c = vp"

text \<open>
  The assignment to the final parent: the three branches on the value, then on the type
  of the parent. The result is the parent afterwards and either the error raised or the
  flag \<^verbatim>\<open>val_changed\<close>.
\<close>

definition assign_last :: "pyval \<Rightarrow> key \<Rightarrow> pyval \<Rightarrow> pyval \<times> (error + bool)" where
  "assign_last val_parent last_key v =
     (if v = Undefined then (val_parent, Inr False)
      else if v = PNone then
        (case val_parent of
           PDict d \<Rightarrow>
             if map_of d last_key \<noteq> None then (PDict (AList.delete last_key d), Inr True)
             else (val_parent, Inr False)
         | PList xs \<Rightarrow>
             (case last_key of
                KInt i \<Rightarrow>
                  if 0 \<le> i \<and> i < int (length xs) then (PList (xs[nat i := PNone]), Inr True)
                  else (val_parent, Inr False)
              | KStr n \<Rightarrow> (val_parent, Inr False))
         | _ \<Rightarrow> (val_parent, Inl (ValueError CannotRemoveElement)))
      else
        (case val_parent of
           PDict d \<Rightarrow>
             (case map_of d last_key of
                None \<Rightarrow> (PDict (AList.update last_key v d), Inr True)
              | Some old \<Rightarrow>
                  if \<not> vals_equal old v then (PDict (AList.update last_key v d), Inr True)
                  else (val_parent, Inr False))
         | PList xs \<Rightarrow>
             (case last_key of
                KInt i \<Rightarrow>
                  (let xs' = pad_none xs i in
                   case py_index xs' i of
                     Inl e \<Rightarrow> (PList xs', Inl e)
                   | Inr old \<Rightarrow>
                       if \<not> vals_equal old v then (PList (xs'[py_pos xs' i := v]), Inr True)
                       else (PList xs', Inr False))
              | KStr n \<Rightarrow> (val_parent, Inr False))
         | _ \<Rightarrow> (val_parent, Inl (ValueError CannotSetElement))))"

text \<open>
  The walk of \<^verbatim>\<open>BaseFigure._set_in\<close> from a parent along the parsed key path. An
  empty path fails at \<^verbatim>\<open>key_path[-1]\<close>. An error leaves behind what the rounds before
  it have created.
\<close>

fun set_in_at :: "pyval \<Rightarrow> key list \<Rightarrow> pyval \<Rightarrow> pyval \<times> (error + bool)" where
  "set_in_at val_parent [] v = (val_parent, Inl IndexError)"
| "set_in_at val_parent [last_key] v = assign_last val_parent last_key v"
| "set_in_at val_parent (k # nxt # ks) v =
     (let vp = extend_parent val_parent k nxt in
      case py_getitem vp k of
        Inl e \<Rightarrow> (vp, Inl e)
      | Inr child \<Rightarrow>
          (case set_in_at child (nxt # ks) v of
             (child', r) \<Rightarrow> (replace_child vp k child', r)))"

text \<open>\<^verbatim>\<open>BaseFigure._set_in(d, key_path_str, v)\<close>: the dict afterwards and the outcome.\<close>

definition set_in :: "pyval \<Rightarrow> string \<Rightarrow> pyval \<Rightarrow> pyval \<times> (error + bool)" where
  "set_in d key_path_str v =
     (case d of
        PDict m \<Rightarrow> set_in_at d (str_to_dict_path key_path_str) v
      | _ \<Rightarrow> (d, Inl AssertionError))"

text \<open>
  Reading along a path without creating anything: the parent that the walk of
  \<^verbatim>\<open>_set_in\<close> ends in when every intermediate container is already there.
\<close>

fun navigate :: "pyval \<Rightarrow> key list \<Rightarrow> error + pyval" where
  "navigate vp [] = Inr vp"
| "navigate vp (k # ks) = (case py_getitem vp k of Inl e \<Rightarrow> Inl e | Inr c \<Rightarrow> navigate c ks)"

text \<open>The length of a list or dict, for comparing a container before and after a write.\<close>

fun clen :: "pyval \<Rightarrow> nat" where
  "clen (PList xs) = length xs"
| "clen (PDict d) = length d"
| "clen v = 0"

section \<open>The figure\<close>

text \<open>
  A dict keyed by key path strings (\<^verbatim>\<open>restyle_data\<close>, \<^verbatim>\<open>relayout_data\<close> and the
  changes returned), in insertion order.
\<close>

type_synonym edits = "(string \<times> pyval) list"

text \<open>
  A trace object as far as the figure looks at it: its identity, the value of its
  \<^verbatim>\<open>uid\<close> property, and the two fields that detaching it from the figure writes.
\<close>

record trace_obj =
  obj_id :: nat
  obj_uid :: string
  obj_orphan_props :: pyval
  obj_has_parent :: bool

text \<open>
  The state of a \<^verbatim>\<open>BaseFigure\<close>: \<^verbatim>\<open>_data\<close>, \<^verbatim>\<open>_data_defaults\<close>, \<^verbatim>\<open>_data_objs\<close>,
  \<^verbatim>\<open>_layout\<close>, the identity of \<^verbatim>\<open>_layout_obj\<close>, and the three fields of the batch
  mode.
\<close>

record figure =
  data :: "pyval list"
  data_defaults :: "pyval list"
  data_objs :: "trace_obj list"
  layout :: pyval
  layout_obj :: nat
  in_batch_mode :: bool
  batch_trace_edits :: "(nat \<times> edits) list"
  batch_layout_edits :: edits

text \<open>
  The \<^verbatim>\<open>trace_indexes\<close> argument: \<^verbatim>\<open>None\<close>, one index, or a list or tuple of
  indexes. The restyle message of \<^verbatim>\<open>_restyle_child\<close> carries one bare index, the
  others a list.
\<close>

datatype trace_indexes = AllTraces | OneTrace int | TraceList "int list"

text \<open>What indexing a plotly object gives: a plotly object, a tuple of them, or a value.\<close>

datatype item = ItemNode nat | ItemTuple "nat list" | ItemValue pyval

text \<open>
  What leaves the figure, in order: the messages of the \<^verbatim>\<open>_send_*_msg\<close> methods and
  the calls \<^verbatim>\<open>callback(self, *callback_args)\<close> of registered change callbacks, each
  with the callback, the object it is registered on and the arguments. Calls are made
  without \<^verbatim>\<open>source_view_id\<close>. A callback is taken not to write to the figure.
\<close>

datatype event =
    RestyleMsg edits trace_indexes
  | RelayoutMsg edits
  | UpdateMsg edits edits "int list"
  | DeleteTracesMsg "nat list"
  | MoveTracesMsg "nat list" "nat list"
  | CallbackCall nat nat "item list"

text \<open>
  The object graph around the figure. The trace and layout classes and the validators
  are generated code that is not part of the sources, so what they decide is a
  parameter: whether a path is in a plotly object (\<^verbatim>\<open>__contains__\<close>, by object
  identity), what indexing an object by a path tuple returns in a given state of the
  figure (\<^verbatim>\<open>__getitem__\<close>), the \<^verbatim>\<open>_change_callbacks\<close> dict of an object, and
  \<^verbatim>\<open>validate_coerce\<close> of the validator of a property of an object.
\<close>

record objects =
  obj_contains :: "nat \<Rightarrow> key list \<Rightarrow> error + bool"
  obj_getitem :: "figure \<Rightarrow> nat \<Rightarrow> key list \<Rightarrow> error + item"
  change_callbacks :: "nat \<Rightarrow> (key list list \<times> nat list) list"
  validate_coerce :: "nat \<Rightarrow> string \<Rightarrow> pyval \<Rightarrow> error + pyval"

subsection \<open>Dispatch of change callbacks\<close>

text \<open>
  \<^verbatim>\<open>BaseFigure._build_dispatch_plan\<close>: a dict from path tuples to sets of path tuples.
  The dict is an association list in insertion order, a set a list without repetition.
\<close>

type_synonym dispatch_plan = "(key list \<times> key list list) list"

definition prefixes_of :: "key list \<Rightarrow> key list list" where
  "prefixes_of keys_left = map (\<lambda>i. take (i + 1) keys_left) [0..<length keys_left]"

fun plan_walk :: "dispatch_plan \<Rightarrow> key list \<Rightarrow> key list \<Rightarrow> dispatch_plan" where
  "plan_walk plan key_path_so_far [] = plan"
| "plan_walk plan key_path_so_far (next_key # rest) =
     (let plan1 = (if map_of plan key_path_so_far = None
                   then plan @ [(key_path_so_far, [])] else plan);
          to_add = prefixes_of (next_key # rest);
          plan2 = AList.update key_path_so_far
                    (List.union (the (map_of plan1 key_path_so_far)) to_add) plan1
      in plan_walk plan2 (key_path_so_far @ [next_key]) rest)"

definition build_dispatch_plan :: "string list \<Rightarrow> dispatch_plan" where
  "build_dispatch_plan key_path_strs =
     foldl (\<lambda>plan key_path_str. plan_walk plan [] (str_to_dict_path key_path_str))
       [] key_path_strs"

text \<open>A loop whose body emits events and may raise: the first error ends the loop.\<close>

fun run_all :: "('a \<Rightarrow> event list \<times> error option) \<Rightarrow> 'a list \<Rightarrow> event list \<times> error option" where
  "run_all f [] = ([], None)"
| "run_all f (x # xs) =
     (case f x of
        (evs, Some e) \<Rightarrow> (evs, Some e)
      | (evs, None) \<Rightarrow> (case run_all f xs of (evs', r) \<Rightarrow> (evs @ evs', r)))"

text \<open>A list comprehension whose element expression may raise.\<close>

fun collect :: "('a \<Rightarrow> error + 'b) \<Rightarrow> 'a list \<Rightarrow> error + 'b list" where
  "collect f [] = Inr []"
| "collect f (x # xs) =
     (case f x of
        Inl e \<Rightarrow> Inl e
      | Inr y \<Rightarrow> (case collect f xs of Inl e \<Rightarrow> Inl e | Inr ys \<Rightarrow> Inr (y # ys)))"

text \<open>
  \<^verbatim>\<open>BasePlotlyType._dispatch_change_callbacks(self, changed_paths)\<close>, with the
  registrations of \<^verbatim>\<open>self\<close> and its \<^verbatim>\<open>__getitem__\<close> passed in.
\<close>

definition dispatch_change_callbacks ::
  "(key list \<Rightarrow> error + item) \<Rightarrow> (key list list \<times> nat list) list \<Rightarrow> nat \<Rightarrow> key list list
     \<Rightarrow> event list \<times> error option" where
  "dispatch_change_callbacks getitem registrations self changed_paths =
     run_all (\<lambda>(prop_path_tuples, callbacks).
        if list_ex (\<lambda>p. p \<in> set changed_paths) prop_path_tuples then
          (case collect getitem prop_path_tuples of
             Inl e \<Rightarrow> ([], Some e)
           | Inr callback_args \<Rightarrow>
               (map (\<lambda>callback. CallbackCall callback self callback_args) callbacks, None))
        else ([], None)) registrations"

definition dispatch_obj ::
  "objects \<Rightarrow> figure \<Rightarrow> nat \<Rightarrow> key list \<Rightarrow> key list list \<Rightarrow> event list \<times> error option" where
  "dispatch_obj og fig obj path_tuple changed_paths =
     (case obj_getitem og fig obj path_tuple of
        Inl e \<Rightarrow> ([], Some e)
      | Inr (ItemNode n) \<Rightarrow>
          dispatch_change_callbacks (obj_getitem og fig n) (change_callbacks og n) n changed_paths
      | Inr other \<Rightarrow> ([], None))"

text \<open>\<^verbatim>\<open>BaseFigure._dispatch_layout_change_callbacks\<close>\<close>

definition dispatch_layout_change_callbacks ::
  "objects \<Rightarrow> figure \<Rightarrow> edits \<Rightarrow> event list \<times> error option" where
  "dispatch_layout_change_callbacks og fig relayout_data =
     run_all (\<lambda>(path_tuple, changed_paths).
        dispatch_obj og fig (layout_obj fig) path_tuple changed_paths)
       (build_dispatch_plan (map fst relayout_data))"

text \<open>\<^verbatim>\<open>BaseFigure._dispatch_trace_change_callbacks\<close>\<close>

definition dispatch_trace_change_callbacks ::
  "objects \<Rightarrow> figure \<Rightarrow> edits \<Rightarrow> int list \<Rightarrow> event list \<times> error option" where
  "dispatch_trace_change_callbacks og fig restyle_data trace_indexes =
     run_all (\<lambda>(path_tuple, changed_paths).
        run_all (\<lambda>trace_ind.
           case py_index (data_objs fig) trace_ind of
             Inl e \<Rightarrow> ([], Some e)
           | Inr trace \<Rightarrow> dispatch_obj og fig (obj_id trace) path_tuple changed_paths)
          trace_indexes)
       (build_dispatch_plan (map fst restyle_data))"

subsection \<open>Restyle\<close>

text \<open>\<^verbatim>\<open>BaseFigure._normalize_trace_indexes\<close>\<close>

definition normalize_trace_indexes :: "figure \<Rightarrow> trace_indexes \<Rightarrow> int list" where
  "normalize_trace_indexes fig trace_indexes =
     (case trace_indexes of
        AllTraces \<Rightarrow> map int [0..<length (data_objs fig)]
      | OneTrace i \<Rightarrow> [i]
      | TraceList is \<Rightarrow> is)"

text \<open>\<^verbatim>\<open>v[i % len(v)] if isinstance(v, list) else v\<close>\<close>

definition select_value :: "pyval \<Rightarrow> nat \<Rightarrow> error + pyval" where
  "select_value v i =
     (case v of
        PList xs \<Rightarrow> if xs = [] then Inl ZeroDivisionError else Inr (xs ! (i mod length xs))
      | _ \<Rightarrow> Inr v)"

text \<open>
  \<^verbatim>\<open>BaseFigure._is_key_path_compatible\<close>, with \<^verbatim>\<open>in plotly_obj\<close> passed in: a
  trailing integer is dropped from the path before the test.
\<close>

definition is_key_path_compatible :: "(key list \<Rightarrow> error + bool) \<Rightarrow> string \<Rightarrow> error + bool" where
  "is_key_path_compatible contains key_path_str =
     (let key_path_tuple = str_to_dict_path key_path_str in
      if key_path_tuple = [] then Inl IndexError
      else contains (case last key_path_tuple of
                       KInt i \<Rightarrow> butlast key_path_tuple
                     | KStr n \<Rightarrow> key_path_tuple))"

text \<open>
  The inner loop of \<^verbatim>\<open>BaseFigure._perform_plotly_restyle\<close> for one key, from position
  \<open>i\<close> of \<^verbatim>\<open>enumerate(trace_indexes)\<close> on, with \<^verbatim>\<open>any_vals_changed\<close> so far. The
  figure that is returned holds what has been written, also when an error is raised.
  The value is written by value: that the source puts the same list or dict object into
  every trace that the value goes to is told by \<open>restyle_traces_ref\<close> in the last
  section only.
\<close>

fun restyle_traces ::
  "objects \<Rightarrow> figure \<Rightarrow> string \<Rightarrow> pyval \<Rightarrow> nat \<Rightarrow> int list \<Rightarrow> bool \<Rightarrow> figure \<times> (error + bool)" where
  "restyle_traces og fig key_path_str v i [] any_vals_changed = (fig, Inr any_vals_changed)"
| "restyle_traces og fig key_path_str v i (trace_ind # rest) any_vals_changed =
     (if int (length (data fig)) \<le> trace_ind
      then (fig, Inl (ValueError (TraceIndexOutOfRange trace_ind)))
      else
        (case select_value v i of
           Inl e \<Rightarrow> (fig, Inl e)
         | Inr trace_v \<Rightarrow>
             if trace_v \<noteq> Undefined then
               (case py_index (data_objs fig) trace_ind of
                  Inl e \<Rightarrow> (fig, Inl e)
                | Inr trace_obj \<Rightarrow>
                    (case is_key_path_compatible (obj_contains og (obj_id trace_obj)) key_path_str of
                       Inl e \<Rightarrow> (fig, Inl e)
                     | Inr compatible \<Rightarrow>
                         if \<not> compatible
                         then (fig, Inl (ValueError (InvalidPropertyPath key_path_str)))
                         else
                           (case py_index (data fig) trace_ind of
                              Inl e \<Rightarrow> (fig, Inl e)
                            | Inr d \<Rightarrow>
                                (case set_in d key_path_str trace_v of
                                   (d', r) \<Rightarrow>
                                     (let fig' = fig\<lparr>data :=
                                            (data fig)[py_pos (data fig) trace_ind := d']\<rparr>
                                      in case r of
                                           Inl e \<Rightarrow> (fig', Inl e)
                                         | Inr val_changed \<Rightarrow>
                                             restyle_traces og fig' key_path_str v (Suc i) rest
                                               (any_vals_changed \<or> val_changed))))))
             else restyle_traces og fig key_path_str v (Suc i) rest any_vals_changed))"

text \<open>The outer loop over \<^verbatim>\<open>restyle_data.items()\<close>, with \<^verbatim>\<open>restyle_changes\<close> so far.\<close>

fun restyle_keys ::
  "objects \<Rightarrow> figure \<Rightarrow> edits \<Rightarrow> int list \<Rightarrow> edits \<Rightarrow> figure \<times> (error + edits)" where
  "restyle_keys og fig [] trace_indexes restyle_changes = (fig, Inr restyle_changes)"
| "restyle_keys og fig ((key_path_str, v) # rest) trace_indexes restyle_changes =
     (case restyle_traces og fig key_path_str v 0 trace_indexes False of
        (fig', Inl e) \<Rightarrow> (fig', Inl e)
      | (fig', Inr any_vals_changed) \<Rightarrow>
          restyle_keys og fig' rest trace_indexes
            (if any_vals_changed then AList.update key_path_str v restyle_changes
             else restyle_changes))"

definition perform_plotly_restyle ::
  "objects \<Rightarrow> figure \<Rightarrow> edits \<Rightarrow> int list \<Rightarrow> figure \<times> (error + edits)" where
  "perform_plotly_restyle og fig restyle_data trace_indexes =
     restyle_keys og fig restyle_data trace_indexes []"

text \<open>
  An operation on the figure returns the figure afterwards, the events in the order in
  which they left, and the error raised, if any.
\<close>

type_synonym outcome = "figure \<times> event list \<times> error option"

text \<open>\<^verbatim>\<open>BaseFigure.plotly_restyle\<close>\<close>

definition plotly_restyle :: "objects \<Rightarrow> figure \<Rightarrow> edits \<Rightarrow> trace_indexes \<Rightarrow> outcome" where
  "plotly_restyle og fig restyle_data trace_indexes =
     (let trace_indexes = normalize_trace_indexes fig trace_indexes in
      case perform_plotly_restyle og fig restyle_data trace_indexes of
        (fig', Inl e) \<Rightarrow> (fig', [], Some e)
      | (fig', Inr restyle_changes) \<Rightarrow>
          if restyle_changes \<noteq> [] then
            (case dispatch_trace_change_callbacks og fig' restyle_changes trace_indexes of
               (evs, r) \<Rightarrow> (fig', RestyleMsg restyle_changes (TraceList trace_indexes) # evs, r))
          else (fig', [], None))"

subsection \<open>Relayout\<close>

text \<open>\<^verbatim>\<open>BaseFigure._perform_plotly_relayout\<close>, with \<^verbatim>\<open>relayout_changes\<close> so far.\<close>

fun relayout_keys :: "objects \<Rightarrow> figure \<Rightarrow> edits \<Rightarrow> edits \<Rightarrow> figure \<times> (error + edits)" where
  "relayout_keys og fig [] relayout_changes = (fig, Inr relayout_changes)"
| "relayout_keys og fig ((key_path_str, v) # rest) relayout_changes =
     (case is_key_path_compatible (obj_contains og (layout_obj fig)) key_path_str of
        Inl e \<Rightarrow> (fig, Inl e)
      | Inr compatible \<Rightarrow>
          if \<not> compatible then (fig, Inl (ValueError (InvalidPropertyPath key_path_str)))
          else
            (case set_in (layout fig) key_path_str v of
               (l', Inl e) \<Rightarrow> (fig\<lparr>layout := l'\<rparr>, Inl e)
             | (l', Inr val_changed) \<Rightarrow>
                 relayout_keys og (fig\<lparr>layout := l'\<rparr>) rest
                   (if val_changed then AList.update key_path_str v relayout_changes
                    else relayout_changes)))"

definition perform_plotly_relayout :: "objects \<Rightarrow> figure \<Rightarrow> edits \<Rightarrow> figure \<times> (error + edits)" where
  "perform_plotly_relayout og fig relayout_data = relayout_keys og fig relayout_data []"

text \<open>\<^verbatim>\<open>BaseFigure.plotly_relayout\<close>\<close>

definition plotly_relayout :: "objects \<Rightarrow> figure \<Rightarrow> edits \<Rightarrow> outcome" where
  "plotly_relayout og fig relayout_data =
     (case perform_plotly_relayout og fig relayout_data of
        (fig', Inl e) \<Rightarrow> (fig', [], Some e)
      | (fig', Inr relayout_changes) \<Rightarrow>
          if relayout_changes \<noteq> [] then
            (case dispatch_layout_change_callbacks og fig' relayout_changes of
               (evs, r) \<Rightarrow> (fig', RelayoutMsg relayout_changes # evs, r))
          else (fig', [], None))"

subsection \<open>Update\<close>

text \<open>
  \<^verbatim>\<open>BaseFigure._perform_plotly_update\<close>. An argument that is \<^verbatim>\<open>None\<close> is \<open>None\<close>;
  the result \<open>None\<close> is the early exit \<^verbatim>\<open>return None, None, None\<close>.
\<close>

definition perform_plotly_update ::
  "objects \<Rightarrow> figure \<Rightarrow> edits option \<Rightarrow> edits option \<Rightarrow> trace_indexes
     \<Rightarrow> figure \<times> (error + (edits \<times> edits \<times> int list) option)" where
  "perform_plotly_update og fig restyle_data relayout_data trace_indexes =
     (if (restyle_data = None \<or> restyle_data = Some []) \<and>
         (relayout_data = None \<or> relayout_data = Some [])
      then (fig, Inr None)
      else
        (let restyle_data = (case restyle_data of None \<Rightarrow> [] | Some r \<Rightarrow> r);
             relayout_data = (case relayout_data of None \<Rightarrow> [] | Some r \<Rightarrow> r);
             trace_indexes = normalize_trace_indexes fig trace_indexes
         in case perform_plotly_relayout og fig relayout_data of
              (fig1, Inl e) \<Rightarrow> (fig1, Inl e)
            | (fig1, Inr relayout_changes) \<Rightarrow>
                (case perform_plotly_restyle og fig1 restyle_data trace_indexes of
                   (fig2, Inl e) \<Rightarrow> (fig2, Inl e)
                 | (fig2, Inr restyle_changes) \<Rightarrow>
                     (fig2, Inr (Some (restyle_changes, relayout_changes, trace_indexes))))))"

text \<open>\<^verbatim>\<open>BaseFigure.plotly_update\<close>\<close>

definition plotly_update ::
  "objects \<Rightarrow> figure \<Rightarrow> edits option \<Rightarrow> edits option \<Rightarrow> trace_indexes \<Rightarrow> outcome" where
  "plotly_update og fig restyle_data relayout_data trace_indexes =
     (case perform_plotly_update og fig restyle_data relayout_data trace_indexes of
        (fig', Inl e) \<Rightarrow> (fig', [], Some e)
      | (fig', Inr None) \<Rightarrow> (fig', [], None)
      | (fig', Inr (Some (restyle_changes, relayout_changes, trace_indexes))) \<Rightarrow>
          (let msg = (if restyle_changes \<noteq> [] \<or> relayout_changes \<noteq> []
                      then [UpdateMsg restyle_changes relayout_changes trace_indexes] else []);
               (evs1, r1) = (if restyle_changes \<noteq> []
                             then dispatch_trace_change_callbacks og fig' restyle_changes
                                    trace_indexes
                             else ([], None))
           in case r1 of
                Some e \<Rightarrow> (fig', msg @ evs1, Some e)
              | None \<Rightarrow>
                  (let (evs2, r2) = (if relayout_changes \<noteq> []
                                     then dispatch_layout_change_callbacks og fig'
                                            relayout_changes
                                     else ([], None))
                   in (fig', msg @ evs1 @ evs2, r2))))"

subsection \<open>Property writes that reach the figure\<close>

text \<open>\<^verbatim>\<open>BaseFigure._index_is\<close>: the first position of an object, by identity.\<close>

definition index_is :: "trace_obj list \<Rightarrow> nat \<Rightarrow> error + nat" where
  "index_is iterable val =
     (case filter (\<lambda>i. obj_id (iterable ! i) = val) [0..<length iterable] of
        [] \<Rightarrow> Inl (ValueError InvalidValue)
      | i # index_list \<Rightarrow> Inr i)"

text \<open>
  \<^verbatim>\<open>BaseFigure._restyle_child\<close>: outside batch mode the restyle message and the
  callbacks, in batch mode an entry in \<^verbatim>\<open>_batch_trace_edits\<close>.
\<close>

definition restyle_child :: "objects \<Rightarrow> figure \<Rightarrow> nat \<Rightarrow> string \<Rightarrow> pyval \<Rightarrow> outcome" where
  "restyle_child og fig child key_path_str val =
     (case index_is (data_objs fig) child of
        Inl e \<Rightarrow> (fig, [], Some e)
      | Inr trace_index \<Rightarrow>
          if \<not> in_batch_mode fig then
            (let restyle = [(key_path_str, PList [val])] in
             case dispatch_trace_change_callbacks og fig restyle [int trace_index] of
               (evs, r) \<Rightarrow> (fig, RestyleMsg restyle (OneTrace (int trace_index)) # evs, r))
          else
            (fig\<lparr>batch_trace_edits :=
                 AList.update trace_index
                   (AList.update key_path_str val
                      (case map_of (batch_trace_edits fig) trace_index of
                         None \<Rightarrow> [] | Some trace_edits \<Rightarrow> trace_edits))
                   (batch_trace_edits fig)\<rparr>, [], None))"

text \<open>\<^verbatim>\<open>BaseFigure._relayout_child\<close>\<close>

definition relayout_child :: "objects \<Rightarrow> figure \<Rightarrow> nat \<Rightarrow> string \<Rightarrow> pyval \<Rightarrow> outcome" where
  "relayout_child og fig child key_path_str val =
     (if child \<noteq> layout_obj fig then (fig, [], Some AssertionError)
      else if \<not> in_batch_mode fig then
        (let relayout_msg = [(key_path_str, val)] in
         case dispatch_layout_change_callbacks og fig relayout_msg of
           (evs, r) \<Rightarrow> (fig, RelayoutMsg relayout_msg # evs, r))
      else
        (fig\<lparr>batch_layout_edits := AList.update key_path_str val (batch_layout_edits fig)\<rparr>,
         [], None))"

text \<open>
  \<^verbatim>\<open>BaseFigure._get_child_props\<close> and the write through the dict that it returns, for
  a trace or the layout of the figure.
\<close>

definition get_child_props :: "figure \<Rightarrow> nat \<Rightarrow> error + pyval" where
  "get_child_props fig child =
     (case index_is (data_objs fig) child of
        Inr trace_index \<Rightarrow> py_index (data fig) (int trace_index)
      | Inl e \<Rightarrow>
          if child = layout_obj fig then Inr (layout fig)
          else Inl (ValueError InvalidValue))"

definition put_child_props :: "figure \<Rightarrow> nat \<Rightarrow> pyval \<Rightarrow> figure" where
  "put_child_props fig child props =
     (case index_is (data_objs fig) child of
        Inr trace_index \<Rightarrow> fig\<lparr>data := (data fig)[trace_index := props]\<rparr>
      | Inl e \<Rightarrow> if child = layout_obj fig then fig\<lparr>layout := props\<rparr> else fig)"

text \<open>
  The two hierarchies differ in \<^verbatim>\<open>_send_prop_set\<close>: an object of the trace hierarchy
  calls \<^verbatim>\<open>_restyle_child\<close> of its parent, one of the layout hierarchy
  \<^verbatim>\<open>_relayout_child\<close>.
\<close>

datatype hierarchy = TraceHierarchy | LayoutHierarchy

definition send_prop_set ::
  "objects \<Rightarrow> figure \<Rightarrow> hierarchy \<Rightarrow> nat \<Rightarrow> string \<Rightarrow> pyval \<Rightarrow> outcome" where
  "send_prop_set og fig h self prop_path_str val =
     (case h of
        TraceHierarchy \<Rightarrow> restyle_child og fig self prop_path_str val
      | LayoutHierarchy \<Rightarrow> relayout_child og fig self prop_path_str val)"

text \<open>
  \<^verbatim>\<open>BasePlotlyType._set_prop\<close> on a trace or on the layout of the figure (an object
  whose parent is the figure, so that its \<^verbatim>\<open>_props\<close> is the figure's dict for it and
  \<^verbatim>\<open>_init_props\<close> has nothing to do). The figure's dicts for its children are dicts.
\<close>

definition set_prop ::
  "objects \<Rightarrow> figure \<Rightarrow> hierarchy \<Rightarrow> nat \<Rightarrow> string \<Rightarrow> pyval \<Rightarrow> outcome" where
  "set_prop og fig h self prop val =
     (if val = Undefined then (fig, [], None)
      else
        (case validate_coerce og self prop val of
           Inl e \<Rightarrow> (fig, [], Some e)
         | Inr val \<Rightarrow>
             (case get_child_props fig self of
                Inl e \<Rightarrow> (fig, [], Some e)
              | Inr (PDict props) \<Rightarrow>
                  if val = PNone then
                    (if props \<noteq> [] \<and> map_of props (KStr prop) \<noteq> None then
                       send_prop_set og
                         (if \<not> in_batch_mode fig
                          then put_child_props fig self (PDict (AList.delete (KStr prop) props))
                          else fig) h self prop val
                     else (fig, [], None))
                  else
                    (if (case map_of props (KStr prop) of
                           None \<Rightarrow> True | Some old \<Rightarrow> \<not> vals_equal old val) then
                       send_prop_set og
                         (if \<not> in_batch_mode fig
                          then put_child_props fig self (PDict (AList.update (KStr prop) val props))
                          else fig) h self prop val
                     else (fig, [], None))
              | Inr other \<Rightarrow> (fig, [], Some TypeError))))"

subsection \<open>Property writes below a trace or the layout\<close>

text \<open>
  An object below a trace or the layout is reached from it by the children on the way:
  a compound property, by its name, or an element of a compound array property, by the
  name and its position in the tuple of the parent (\<^verbatim>\<open>_index_is\<close> of the child in it).
  Every object on the way has its parent set.
\<close>

datatype child_step = CompoundChild string | ArrayChild string nat

text \<open>\<^verbatim>\<open>self._props.get(name, None)\<close>; only a dict has \<^verbatim>\<open>get\<close>.\<close>

fun dict_get :: "pyval \<Rightarrow> string \<Rightarrow> error + pyval" where
  "dict_get (PDict d) name = Inr (case map_of d (KStr name) of None \<Rightarrow> PNone | Some x \<Rightarrow> x)"
| "dict_get v name = Inl AttributeError"

text \<open>\<^verbatim>\<open>len(v)\<close>\<close>

fun py_len :: "pyval \<Rightarrow> error + nat" where
  "py_len (PList xs) = Inr (length xs)"
| "py_len (PDict d) = Inr (length d)"
| "py_len (PStr s) = Inr (length s)"
| "py_len v = Inl TypeError"

text \<open>
  \<^verbatim>\<open>BasePlotlyType._get_child_props\<close>, from the \<^verbatim>\<open>_props\<close> of the parent; \<^verbatim>\<open>None\<close>
  tells that the properties of the child are not initialised.
\<close>

definition child_props :: "pyval \<Rightarrow> child_step \<Rightarrow> error + pyval" where
  "child_props parent_props step =
     (if parent_props = PNone then Inr PNone
      else
        (case step of
           CompoundChild name \<Rightarrow> dict_get parent_props name
         | ArrayChild name child_ind \<Rightarrow>
             (case dict_get parent_props name of
                Inl e \<Rightarrow> Inl e
              | Inr children_props \<Rightarrow>
                  if children_props = PNone then Inr PNone
                  else
                    (case py_len children_props of
                       Inl e \<Rightarrow> Inl e
                     | Inr n \<Rightarrow>
                         if child_ind < n
                         then py_getitem children_props (KInt (int child_ind))
                         else Inr PNone))))"

text \<open>
  \<^verbatim>\<open>BasePlotlyType._props\<close> of the object at the end of the steps, from the dict that
  the figure holds for the trace or the layout.
\<close>

fun props_at :: "pyval \<Rightarrow> child_step list \<Rightarrow> error + pyval" where
  "props_at props [] = Inr props"
| "props_at props (step # steps) =
     (case child_props props step of Inl e \<Rightarrow> Inl e | Inr c \<Rightarrow> props_at c steps)"

text \<open>
  What \<^verbatim>\<open>BasePlotlyType._init_child_props\<close> does to the \<^verbatim>\<open>_props\<close> of the parent,
  once these are initialised: an empty dict under the name of a compound child that is
  not there; for an element of a compound array an empty list under a name that is not
  there, and empty dicts appended until the list has the position of the child.
\<close>

definition init_child :: "pyval \<Rightarrow> child_step \<Rightarrow> error + pyval" where
  "init_child parent_props step =
     (case parent_props of
        PDict d \<Rightarrow>
          (case step of
             CompoundChild name \<Rightarrow>
               Inr (if map_of d (KStr name) = None then PDict (d @ [(KStr name, PDict [])])
                    else parent_props)
           | ArrayChild name child_ind \<Rightarrow>
               (let d1 = (if map_of d (KStr name) = None then d @ [(KStr name, PList [])] else d)
                in case map_of d1 (KStr name) of
                     Some (PList children_list) \<Rightarrow>
                       Inr (PDict (AList.update (KStr name)
                              (PList (children_list @
                                 replicate (child_ind + 1 - length children_list) (PDict [])))
                              d1))
                   | Some other \<Rightarrow>
                       (case py_len other of
                          Inl e \<Rightarrow> Inl e
                        | Inr n \<Rightarrow> if n \<le> child_ind then Inl AttributeError else Inr (PDict d1))
                   | None \<Rightarrow> Inr (PDict d1)))
      | _ \<Rightarrow> Inl TypeError)"

text \<open>
  The containers are mutated in place; in the model the new properties of an object are
  put back into those of its parent, up to the dict that the figure holds.
\<close>

fun put_child :: "pyval \<Rightarrow> child_step \<Rightarrow> pyval \<Rightarrow> pyval" where
  "put_child (PDict d) (CompoundChild name) c = PDict (AList.update (KStr name) c d)"
| "put_child (PDict d) (ArrayChild name child_ind) c =
     (case map_of d (KStr name) of
        Some (PList xs) \<Rightarrow> PDict (AList.update (KStr name) (PList (xs[child_ind := c])) d)
      | _ \<Rightarrow> PDict d)"
| "put_child v step c = v"

fun put_at :: "pyval \<Rightarrow> child_step list \<Rightarrow> pyval \<Rightarrow> pyval" where
  "put_at props [] new_props = new_props"
| "put_at props (step # steps) new_props =
     (case child_props props step of
        Inl e \<Rightarrow> props
      | Inr c \<Rightarrow> put_child props step (put_at c steps new_props))"

text \<open>
  \<^verbatim>\<open>BasePlotlyType._init_props\<close> of the object at the end of the steps, which are given
  from the object upwards here: nothing if its \<^verbatim>\<open>_props\<close> are there (or it is the trace
  or layout itself: \<^verbatim>\<open>BaseFigure._init_child_props\<close> does nothing); otherwise
  \<^verbatim>\<open>_init_child_props\<close> of the parent, which initialises the parent first. The result
  is the dict of the trace or layout afterwards and the error raised, if any.
\<close>

fun init_props :: "pyval \<Rightarrow> child_step list \<Rightarrow> pyval \<times> error option" where
  "init_props root_props [] = (root_props, None)"
| "init_props root_props (step # parents) =
     (case props_at root_props (rev (step # parents)) of
        Inl e \<Rightarrow> (root_props, Some e)
      | Inr props \<Rightarrow>
          if props \<noteq> PNone then (root_props, None)
          else
            (case init_props root_props parents of
               (root1, Some e) \<Rightarrow> (root1, Some e)
             | (root1, None) \<Rightarrow>
                 (case props_at root1 (rev parents) of
                    Inl e \<Rightarrow> (root1, Some e)
                  | Inr parent_props \<Rightarrow>
                      (case init_child parent_props step of
                         Inl e \<Rightarrow> (root1, Some e)
                       | Inr parent_props' \<Rightarrow>
                           (put_at root1 (rev parents) parent_props', None)))))"

text \<open>
  The path string that \<^verbatim>\<open>_prop_set_child\<close> builds on the way up:
  \<^verbatim>\<open>'{child_name}.{prop}'\<close> and \<^verbatim>\<open>'{child_name}.{child_ind}.{prop}'\<close>.
\<close>

fun prop_path_str :: "child_step list \<Rightarrow> string \<Rightarrow> string" where
  "prop_path_str [] prop = prop"
| "prop_path_str (CompoundChild name # steps) prop = name @ ''.'' @ prop_path_str steps prop"
| "prop_path_str (ArrayChild name child_ind # steps) prop =
     name @ ''.'' @ str_of_int (int child_ind) @ ''.'' @ prop_path_str steps prop"

text \<open>
  \<^verbatim>\<open>BasePlotlyType._set_prop\<close> on an object below a trace or the layout of the figure,
  given by the trace or layout and the steps down from it. The validator is that of the
  property at this path below the trace or layout. A value other than \<^verbatim>\<open>None\<close>
  initialises the properties of the object before the batch mode is looked at. The
  properties of an initialised object are a dict.
\<close>

definition set_nested_prop ::
  "objects \<Rightarrow> figure \<Rightarrow> hierarchy \<Rightarrow> nat \<Rightarrow> child_step list \<Rightarrow> string \<Rightarrow> pyval \<Rightarrow> outcome" where
  "set_nested_prop og fig h root steps prop val =
     (if val = Undefined then (fig, [], None)
      else
        (case validate_coerce og root (prop_path_str steps prop) val of
           Inl e \<Rightarrow> (fig, [], Some e)
         | Inr val \<Rightarrow>
             (case get_child_props fig root of
                Inl e \<Rightarrow> (fig, [], Some e)
              | Inr root_props \<Rightarrow>
                  if val = PNone then
                    (case props_at root_props steps of
                       Inl e \<Rightarrow> (fig, [], Some e)
                     | Inr (PDict props) \<Rightarrow>
                         if props \<noteq> [] \<and> map_of props (KStr prop) \<noteq> None then
                           send_prop_set og
                             (if \<not> in_batch_mode fig
                              then put_child_props fig root
                                     (put_at root_props steps
                                        (PDict (AList.delete (KStr prop) props)))
                              else fig) h root (prop_path_str steps prop) val
                         else (fig, [], None)
                     | Inr PNone \<Rightarrow> (fig, [], None)
                     | Inr other \<Rightarrow> (fig, [], Some TypeError))
                  else
                    (case init_props root_props (rev steps) of
                       (root1, Some e) \<Rightarrow> (put_child_props fig root root1, [], Some e)
                     | (root1, None) \<Rightarrow>
                         (let fig1 = put_child_props fig root root1 in
                          case props_at root1 steps of
                            Inl e \<Rightarrow> (fig1, [], Some e)
                          | Inr (PDict props) \<Rightarrow>
                              if (case map_of props (KStr prop) of
                                    None \<Rightarrow> True | Some old \<Rightarrow> \<not> vals_equal old val) then
                                send_prop_set og
                                  (if \<not> in_batch_mode fig
                                   then put_child_props fig root
                                          (put_at root1 steps
                                             (PDict (AList.update (KStr prop) val props)))
                                   else fig1) h root (prop_path_str steps prop) val
                              else (fig1, [], None)
                          | Inr other \<Rightarrow> (fig1, [], Some TypeError))))))"

subsection \<open>Batch mode\<close>

text \<open>
  \<^verbatim>\<open>BaseFigure._build_update_params_from_batch\<close>: every property that some trace
  edits gets a list with one slot per edited trace, filled with \<^verbatim>\<open>Undefined\<close> and
  then with the values of the edits.
\<close>

definition index_of :: "'a list \<Rightarrow> 'a \<Rightarrow> nat" where
  "index_of xs x = length (takeWhile (\<lambda>y. y \<noteq> x) xs)"

definition set_slot :: "(string \<times> pyval list) list \<Rightarrow> string \<Rightarrow> nat \<Rightarrow> pyval \<Rightarrow> (string \<times> pyval list) list" where
  "set_slot restyle_data trace_prop j trace_val =
     map (\<lambda>(prop, vals). if prop = trace_prop then (prop, vals[j := trace_val]) else (prop, vals))
       restyle_data"

definition build_update_params_from_batch :: "figure \<Rightarrow> edits \<times> edits \<times> int list" where
  "build_update_params_from_batch fig =
     (let batch_style_commands = batch_trace_edits fig;
          trace_indexes = sort (remdups (map fst batch_style_commands));
          all_props = sort (remdups (concat (map (\<lambda>(trace_ind, trace_style). map fst trace_style)
                                               batch_style_commands)));
          restyle_data0 = map (\<lambda>prop. (prop, replicate (length trace_indexes) Undefined)) all_props;
          restyle_data =
            fold (\<lambda>(trace_ind, trace_style) rd.
                    fold (\<lambda>(trace_prop, trace_val) rd'.
                            set_slot rd' trace_prop (index_of trace_indexes trace_ind) trace_val)
                      trace_style rd)
              batch_style_commands restyle_data0
      in (map (\<lambda>(prop, vals). (prop, PList vals)) restyle_data,
          batch_layout_edits fig,
          map int trace_indexes))"

text \<open>
  \<^verbatim>\<open>BaseFigure.batch_update\<close> around a body. The body is what runs at the
  \<^verbatim>\<open>yield\<close>: it takes the figure and returns an outcome. In an open batch the context
  manager only runs the body. Otherwise the \<^verbatim>\<open>finally\<close> block runs whether or not
  the body raised; an error raised in it replaces the body's, and then the saved edits
  are not cleared.
\<close>

definition batch_update :: "objects \<Rightarrow> figure \<Rightarrow> (figure \<Rightarrow> outcome) \<Rightarrow> outcome" where
  "batch_update og fig body =
     (if in_batch_mode fig then body fig
      else
        (case body (fig\<lparr>in_batch_mode := True\<rparr>) of
           (fig1, evs1, r1) \<Rightarrow>
             (let fig2 = fig1\<lparr>in_batch_mode := False\<rparr>;
                  (restyle_data, relayout_data, trace_indexes) =
                     build_update_params_from_batch fig2
              in case plotly_update og fig2 (Some restyle_data) (Some relayout_data)
                        (TraceList trace_indexes) of
                   (fig3, evs2, Some e) \<Rightarrow> (fig3, evs1 @ evs2, Some e)
                 | (fig3, evs2, None) \<Rightarrow>
                     (fig3\<lparr>batch_layout_edits := [], batch_trace_edits := []\<rparr>,
                      evs1 @ evs2, r1))))"

text \<open>
  A body made of steps. A step is an assignment to a simple property of a trace or of the
  layout (\<^verbatim>\<open>_set_prop\<close> on it), an assignment to a simple property of an object below
  a trace or the layout (\<^verbatim>\<open>_set_prop\<close> on that object), or a bare call of
  \<^verbatim>\<open>_restyle_child\<close> or of \<^verbatim>\<open>_relayout_child\<close> of the figure with a path from the
  trace or the layout: the call in which such an assignment ends, without what
  \<^verbatim>\<open>_set_prop\<close> does before it. The bare call is also all that the assignment of a
  compound or compound array property (\<^verbatim>\<open>_set_compound_prop\<close>, \<^verbatim>\<open>_set_array_prop\<close>)
  does to the figure in an open batch, where it leaves \<^verbatim>\<open>_props\<close> alone; the objects
  that it reparents are not part of the figure. The first error ends the body.
\<close>

datatype prop_write =
    TraceWrite nat string pyval
  | LayoutWrite nat string pyval
  | SetProp hierarchy nat string pyval
  | SetNestedProp hierarchy nat "child_step list" string pyval

definition run_write :: "objects \<Rightarrow> prop_write \<Rightarrow> figure \<Rightarrow> outcome" where
  "run_write og w fig =
     (case w of
        TraceWrite child key_path_str val \<Rightarrow> restyle_child og fig child key_path_str val
      | LayoutWrite child key_path_str val \<Rightarrow> relayout_child og fig child key_path_str val
      | SetProp h self prop val \<Rightarrow> set_prop og fig h self prop val
      | SetNestedProp h root steps prop val \<Rightarrow> set_nested_prop og fig h root steps prop val)"

fun run_writes :: "objects \<Rightarrow> prop_write list \<Rightarrow> figure \<Rightarrow> outcome" where
  "run_writes og [] fig = (fig, [], None)"
| "run_writes og (w # ws) fig =
     (case run_write og w fig of
        (fig1, evs1, Some e) \<Rightarrow> (fig1, evs1, Some e)
      | (fig1, evs1, None) \<Rightarrow>
          (case run_writes og ws fig1 of (fig2, evs2, r) \<Rightarrow> (fig2, evs1 @ evs2, r)))"

text \<open>A body that runs another body and then raises.\<close>

definition raise_after :: "(figure \<Rightarrow> outcome) \<Rightarrow> error \<Rightarrow> figure \<Rightarrow> outcome" where
  "raise_after body e fig =
     (case body fig of
        (fig1, evs, None) \<Rightarrow> (fig1, evs, Some e)
      | (fig1, evs, Some e') \<Rightarrow> (fig1, evs, Some e'))"

subsection \<open>A small figure for the examples\<close>

text \<open>
  An object graph in which every path is in every object and indexing an object by the
  empty path gives the object itself, by any other path a value; object 7, the layout,
  carries the callback 1 registered for \<^verbatim>\<open>'a'\<close> and again for \<^verbatim>\<open>'b'\<close>.
\<close>

definition example_objects :: objects where
  "example_objects =
     \<lparr>obj_contains = (\<lambda>obj path. Inr True),
      obj_getitem = (\<lambda>fig obj path.
         if path = [] then Inr (ItemNode obj)
         else if obj = layout_obj fig then
           (case navigate (layout fig) path of
              Inl e \<Rightarrow> Inr (ItemValue PNone) | Inr x \<Rightarrow> Inr (ItemValue x))
         else Inr (ItemValue PNone)),
      change_callbacks = (\<lambda>obj.
         if obj = 7 then [([[KStr ''a'']], [1]), ([[KStr ''b'']], [1])] else []),
      validate_coerce = (\<lambda>obj prop val. Inr val)\<rparr>"

definition example_trace :: "nat \<Rightarrow> string \<Rightarrow> trace_obj" where
  "example_trace n u =
     \<lparr>obj_id = n, obj_uid = u, obj_orphan_props = PDict [], obj_has_parent = True\<rparr>"

definition example_figure :: figure where
  "example_figure =
     \<lparr>data = [PDict [(KStr ''uid'', PStr ''u0'')], PDict [(KStr ''uid'', PStr ''u1'')]],
      data_defaults = [PDict [], PDict []],
      data_objs = [example_trace 0 ''u0'', example_trace 1 ''u1''],
      layout = PDict [],
      layout_obj = 7,
      in_batch_mode = False,
      batch_trace_edits = [],
      batch_layout_edits = []\<rparr>"


subsection \<open>Kinds of events\<close>

fun is_callback :: "event \<Rightarrow> bool" where
  "is_callback (CallbackCall callback self args) = True"
| "is_callback ev = False"

fun is_update_msg :: "event \<Rightarrow> bool" where
  "is_update_msg (UpdateMsg restyle_changes relayout_changes trace_indexes) = True"
| "is_update_msg ev = False"

text \<open>
  The same object graph, except that indexing an object by a non-empty path tells
  whether the figure is in batch mode (1) or not (0) and how many layout edits are
  saved: what a callback sees of the batch when it is called.
\<close>

definition probe_objects :: objects where
  "probe_objects =
     example_objects\<lparr>obj_getitem := (\<lambda>fig obj path.
        if path = [] then Inr (ItemNode obj)
        else Inr (ItemValue (PList [PInt (if in_batch_mode fig then 1 else 0),
                                    PInt (int (length (batch_layout_edits fig)))])))\<rparr>"

text \<open>A body that assigns to the \<^verbatim>\<open>uid\<close> of the first trace the value it has.\<close>

definition same_uid_body :: "figure \<Rightarrow> outcome" where
  "same_uid_body fig = run_writes example_objects [SetProp TraceHierarchy 0 ''uid'' (PStr ''u0'')] fig"

subsection \<open>What an operation leaves alone\<close>

text \<open>Two figures that differ at most in \<^verbatim>\<open>_data\<close> and \<^verbatim>\<open>_layout\<close>.\<close>

definition same_but_data :: "figure \<Rightarrow> figure \<Rightarrow> bool" where
  "same_but_data fig fig' \<longleftrightarrow>
     data_defaults fig' = data_defaults fig \<and> data_objs fig' = data_objs fig \<and>
     layout_obj fig' = layout_obj fig \<and> in_batch_mode fig' = in_batch_mode fig \<and>
     batch_trace_edits fig' = batch_trace_edits fig \<and>
     batch_layout_edits fig' = batch_layout_edits fig"

text \<open>Two figures that differ at most in the saved batch edits.\<close>

definition same_but_edits :: "figure \<Rightarrow> figure \<Rightarrow> bool" where
  "same_but_edits fig fig' \<longleftrightarrow>
     data fig' = data fig \<and> layout fig' = layout fig \<and>
     data_defaults fig' = data_defaults fig \<and> data_objs fig' = data_objs fig \<and>
     layout_obj fig' = layout_obj fig \<and> in_batch_mode fig' = in_batch_mode fig"

text \<open>
  Two figures with the same trace and layout objects, the same defaults and the same
  batch flag: they differ at most in \<^verbatim>\<open>_data\<close>, \<^verbatim>\<open>_layout\<close> and the saved edits.
\<close>

definition same_objects :: "figure \<Rightarrow> figure \<Rightarrow> bool" where
  "same_objects fig fig' \<longleftrightarrow>
     data_defaults fig' = data_defaults fig \<and> data_objs fig' = data_objs fig \<and>
     layout_obj fig' = layout_obj fig \<and> in_batch_mode fig' = in_batch_mode fig"

text \<open>The steps of a body that are assignments below a trace or the layout.\<close>

fun is_nested_write :: "prop_write \<Rightarrow> bool" where
  "is_nested_write (SetNestedProp h root steps prop val) = True"
| "is_nested_write w = False"

subsection \<open>Reading a dispatch plan and a list of events\<close>


text \<open>The calls of one callback among the events.\<close>

fun is_call_of :: "nat \<Rightarrow> event \<Rightarrow> bool" where
  "is_call_of cb (CallbackCall callback self args) = (callback = cb)"
| "is_call_of cb ev = False"

section \<open>Assigning the traces of a figure\<close>

text \<open>
  What is assigned to \<^verbatim>\<open>figure.data\<close>: a list or tuple of elements, each a trace
  object or not, or a value that is neither a list nor a tuple.
\<close>

datatype element = TraceElem trace_obj | OtherElem pyval

datatype assigned = NotSequence pyval | Sequence "element list"

fun is_trace :: "element \<Rightarrow> bool" where
  "is_trace (TraceElem trace) = True"
| "is_trace (OtherElem v) = False"

fun traces_of :: "element list \<Rightarrow> trace_obj list" where
  "traces_of [] = []"
| "traces_of (TraceElem trace # rest) = trace # traces_of rest"
| "traces_of (OtherElem v # rest) = traces_of rest"

text \<open>\<^verbatim>\<open>[_trace['uid'] for _trace in self._data]\<close>\<close>

definition orig_uids_of :: "figure \<Rightarrow> error + pyval list" where
  "orig_uids_of fig = collect (\<lambda>trace_dict. py_getitem trace_dict (KStr ''uid'')) (data fig)"

text \<open>\<^verbatim>\<open>[trace.uid for trace in new_data]\<close>\<close>

definition new_uids_of :: "element list \<Rightarrow> pyval list" where
  "new_uids_of new_data = map (\<lambda>trace. PStr (obj_uid trace)) (traces_of new_data)"

text \<open>What \<^verbatim>\<open>set(...)\<close> accepts as an element.\<close>

fun hashable :: "pyval \<Rightarrow> bool" where
  "hashable (PList xs) = False"
| "hashable (PDict d) = False"
| "hashable v = True"

text \<open>\<^verbatim>\<open>d.update(other)\<close> of a dict with a dict.\<close>

definition dict_update :: "pyval \<Rightarrow> pyval \<Rightarrow> error + pyval" where
  "dict_update d other =
     (case d of
        PDict kvs \<Rightarrow>
          (case other of
             PDict new \<Rightarrow> Inr (PDict (fold (\<lambda>(k, v). AList.update k v) new kvs))
           | _ \<Rightarrow> Inl TypeError)
      | _ \<Rightarrow> Inl AttributeError)"

text \<open>
  The body of the loop that unparents the trace at a removed position:
  \<^verbatim>\<open>old_trace = self.data[i]\<close>, then the properties of the trace are copied into its
  \<^verbatim>\<open>_orphan_props\<close> and its parent is set to \<^verbatim>\<open>None\<close>. The object may sit at
  several positions of \<^verbatim>\<open>_data_objs\<close>.
\<close>

definition unparent :: "figure \<Rightarrow> nat \<Rightarrow> error + figure" where
  "unparent fig i =
     (if length (data_objs fig) \<le> i then Inl IndexError
      else
        (let old_trace = data_objs fig ! i in
         case (if obj_has_parent old_trace then get_child_props fig (obj_id old_trace)
               else Inr (obj_orphan_props old_trace)) of
           Inl e \<Rightarrow> Inl e
         | Inr props \<Rightarrow>
             (case dict_update (obj_orphan_props old_trace) props of
                Inl e \<Rightarrow> Inl e
              | Inr orphan_props \<Rightarrow>
                  Inr (fig\<lparr>data_objs :=
                         map (\<lambda>trace. if obj_id trace = obj_id old_trace
                                       then trace\<lparr>obj_orphan_props := orphan_props,
                                                  obj_has_parent := False\<rparr>
                                       else trace)
                           (data_objs fig)\<rparr>))))"

fun unparent_removed :: "figure \<Rightarrow> nat list \<Rightarrow> figure \<times> error option" where
  "unparent_removed fig [] = (fig, None)"
| "unparent_removed fig (i # rest) =
     (case unparent fig i of
        Inl e \<Rightarrow> (fig, Some e)
      | Inr fig' \<Rightarrow> unparent_removed fig' rest)"

text \<open>
  \<^verbatim>\<open>sorted(zip(inds, dicts))\<close>: tuples are compared by their first components and, when
  these are equal, by the second ones; two dicts that are not equal cannot be ordered.
  The dicts at two positions are compared by value (two floats \<^verbatim>\<open>nan\<close> as unequal).
\<close>

definition py_sorted :: "(nat \<times> pyval) list \<Rightarrow> error + (nat \<times> pyval) list" where
  "py_sorted pairs =
     (if list_ex (\<lambda>a. list_ex (\<lambda>b. a < b \<and> fst (pairs ! a) = fst (pairs ! b) \<and>
                                      \<not> vals_equal (snd (pairs ! a)) (snd (pairs ! b)))
                      [0..<length pairs]) [0..<length pairs]
      then Inl TypeError
      else Inr (sort_key fst pairs))"

text \<open>\<^verbatim>\<open>xs.insert(n, x)\<close>\<close>

definition insert_at :: "'a list \<Rightarrow> nat \<Rightarrow> 'a \<Rightarrow> 'a list" where
  "insert_at xs n x = take n xs @ x # drop n xs"

text \<open>
  The \<^verbatim>\<open>data\<close> setter after its checks, with \<^verbatim>\<open>new_data\<close> as trace objects and the
  two lists of uids: traces are unparented and removed, the remaining ones moved, the
  defaults and the trace objects replaced. After a move \<^verbatim>\<open>new_inds\<close> is the sorted
  tuple of the indexes.
\<close>

definition replace_traces :: "figure \<Rightarrow> trace_obj list \<Rightarrow> pyval list \<Rightarrow> pyval list \<Rightarrow> outcome" where
  "replace_traces fig new_data orig_uids new_uids =
     (let delete_inds = filter (\<lambda>i. orig_uids ! i \<notin> set new_uids) [0..<length (data fig)] in
      case unparent_removed fig delete_inds of
        (fig1, Some e) \<Rightarrow> (fig1, [], Some e)
      | (fig1, None) \<Rightarrow>
          if delete_inds \<noteq> [] \<and> length (data_defaults fig1) \<le> last delete_inds
          then (fig1, [], Some IndexError)
          else
            (let kept = filter (\<lambda>i. i \<notin> set delete_inds) [0..<length (data fig1)];
                 traces_props_post_removal = map (\<lambda>i. data fig1 ! i) kept;
                 traces_prop_defaults_post_removal =
                   map (\<lambda>i. data_defaults fig1 ! i)
                     (filter (\<lambda>i. i \<notin> set delete_inds) [0..<length (data_defaults fig1)]);
                 uids_post_removal = map (\<lambda>i. orig_uids ! i) kept;
                 fig2 = fig1\<lparr>data := traces_props_post_removal\<rparr>;
                 msgs1 = (if delete_inds \<noteq> [] then [DeleteTracesMsg delete_inds] else [])
             in case collect (\<lambda>uid. if uid \<in> set new_uids then Inr (index_of new_uids uid)
                                      else Inl (ValueError InvalidValue)) uids_post_removal of
                  Inl e \<Rightarrow> (fig2, msgs1, Some e)
                | Inr new_inds \<Rightarrow>
                    (let current_inds = [0..<length traces_props_post_removal] in
                     if new_inds \<noteq> current_inds then
                       (let msgs2 = msgs1 @ [MoveTracesMsg current_inds new_inds] in
                        case py_sorted (zip new_inds traces_props_post_removal) of
                          Inl e \<Rightarrow> (fig2\<lparr>data := []\<rparr>, msgs2, Some e)
                        | Inr moved \<Rightarrow>
                            (let fig3 = fig2\<lparr>data :=
                                   fold (\<lambda>(ni, trace_data) d. insert_at d ni trace_data) moved []\<rparr>
                             in case py_sorted (zip (map fst moved)
                                                  traces_prop_defaults_post_removal) of
                                  Inl e \<Rightarrow> (fig3, msgs2, Some e)
                                | Inr defaults \<Rightarrow>
                                    (fig3\<lparr>data_defaults := map snd defaults,
                                          data_objs := new_data\<rparr>, msgs2, None)))
                     else
                       (case py_sorted (zip new_inds traces_prop_defaults_post_removal) of
                          Inl e \<Rightarrow> (fig2, msgs1, Some e)
                        | Inr defaults \<Rightarrow>
                            (fig2\<lparr>data_defaults := map snd defaults,
                                  data_objs := new_data\<rparr>, msgs1, None)))))"

text \<open>
  The setter of \<^verbatim>\<open>BaseFigure.data\<close>. The four checks come first, in this order, and
  each raises \<^verbatim>\<open>ValueError\<close>; the uids of the current traces are read between the
  second and the third.
\<close>

definition data_setter :: "figure \<Rightarrow> assigned \<Rightarrow> outcome" where
  "data_setter fig new_data =
     (case new_data of
        NotSequence v \<Rightarrow> (fig, [], Some (ValueError (InvalidDataAssignment ReceivedType)))
      | Sequence elems \<Rightarrow>
          if \<not> list_all is_trace elems
          then (fig, [], Some (ValueError (InvalidDataAssignment ReceivedElementType)))
          else
            (case orig_uids_of fig of
               Inl e \<Rightarrow> (fig, [], Some e)
             | Inr orig_uids \<Rightarrow>
                 (let new_uids = new_uids_of elems in
                  if \<not> list_all hashable orig_uids then (fig, [], Some TypeError)
                  else if list_ex (\<lambda>uid. uid \<notin> set orig_uids) new_uids
                  then (fig, [], Some (ValueError (InvalidDataAssignment InvalidTraceUids)))
                  else if \<not> distinct new_uids
                  then (fig, [], Some (ValueError (InvalidDataAssignment DuplicatedTraceUids)))
                  else replace_traces fig (traces_of elems) orig_uids new_uids)))"

text \<open>
  \<^verbatim>\<open># All trace types must have a top-level UID\<close>: the dict of a trace in
  \<^verbatim>\<open>_data\<close> has a string under \<^verbatim>\<open>'uid'\<close>.
\<close>

fun has_uid :: "pyval \<Rightarrow> bool" where
  "has_uid (PDict d) = (case map_of d (KStr ''uid'') of Some (PStr uid) \<Rightarrow> True | _ \<Rightarrow> False)"
| "has_uid v = False"

text \<open>The \<^verbatim>\<open>_orphan_props\<close> of an object and the entries of \<^verbatim>\<open>_data\<close> are dicts.\<close>

fun is_dict :: "pyval \<Rightarrow> bool" where
  "is_dict (PDict d) = True"
| "is_dict v = False"

section \<open>Restyle on data held by reference\<close>























section \<open>Parsing the serialized form of a path\<close>

lemma digit_char_props: "d < 10 \<Longrightarrow> is_digit (digit_char d) \<and> digit_val (digit_char d) = d"
  by (simp add: is_digit_def digit_val_def digit_char_def)

lemma digits_of_digits: "\<forall>c \<in> set (digits_of n). is_digit c"
proof (induction n rule: digits_of.induct)
  case (1 n)
  show ?case
  proof (cases "n < 10")
    case True
    then show ?thesis by (subst digits_of.simps) (simp add: digit_char_props)
  next
    case False
    with 1 show ?thesis by (subst digits_of.simps) (simp add: digit_char_props)
  qed
qed

lemma digits_of_nonempty: "digits_of n \<noteq> []"
  by (subst digits_of.simps) simp

lemma parse_digits_all:
  "\<forall>c \<in> set ds. is_digit c \<Longrightarrow>
   parse_digits acc ds = Some (foldl (\<lambda>a c. a * 10 + digit_val c) acc ds)"
  by (induction ds arbitrary: acc) auto

lemma foldl_digits_of: "foldl (\<lambda>a c. a * 10 + digit_val c) 0 (digits_of n) = n"
proof (induction n rule: digits_of.induct)
  case (1 n)
  show ?case
  proof (cases "n < 10")
    case True
    then show ?thesis by (subst digits_of.simps) (simp add: digit_char_props)
  next
    case False
    with 1 show ?thesis by (subst digits_of.simps) (simp add: digit_char_props)
  qed
qed

lemma parse_number_digits:
  assumes "ds \<noteq> []" "\<forall>c \<in> set ds. is_digit c"
  shows "parse_number ds = Some (foldl (\<lambda>a c. a * 10 + digit_val c) 0 ds)"
proof (cases ds)
  case Nil
  with assms show ?thesis by simp
next
  case (Cons c cs)
  with assms show ?thesis by (simp add: parse_number_def parse_digits_all)
qed

lemma digit_not_space: "is_digit c \<Longrightarrow> \<not> is_space c"
  by (auto simp: is_digit_def is_space_def)

lemma strip_digits:
  assumes "ds \<noteq> []" "\<forall>c \<in> set ds. is_digit c"
  shows "strip ds = ds"
proof -
  have a: "dropWhile is_space ds = ds"
    using assms by (cases ds) (auto simp: digit_not_space)
  have "rev ds \<noteq> []" "\<forall>c \<in> set (rev ds). is_digit c" using assms by auto
  then have b: "dropWhile is_space (rev ds) = rev ds"
    by (cases "rev ds") (auto simp: digit_not_space)
  show ?thesis by (simp add: strip_def a b)
qed

lemma digit_not_sign: "is_digit c \<Longrightarrow> c \<noteq> CHR ''-'' \<and> c \<noteq> CHR ''+'' \<and> c \<noteq> CHR ''.'' \<and> c \<noteq> CHR ''['' \<and> c \<noteq> CHR '']''"
  by (auto simp: is_digit_def)

lemma py_int_digits_of: "py_int (digits_of n) = Some (int n)"
proof -
  let ?ds = "digits_of n"
  have ne: "?ds \<noteq> []" by (rule digits_of_nonempty)
  have dg: "\<forall>c \<in> set ?ds. is_digit c" by (rule digits_of_digits)
  obtain c cs where cs: "?ds = c # cs" using ne by (cases ?ds) auto
  have "is_digit c" using dg cs by simp
  then have sg: "c \<noteq> CHR ''-''" "c \<noteq> CHR ''+''" using digit_not_sign by auto
  have "parse_number ?ds = Some n"
    using parse_number_digits [OF ne dg] by (simp add: foldl_digits_of)
  moreover have "strip ?ds = c # cs"
    using strip_digits [OF ne dg] cs by simp
  ultimately show ?thesis
    using sg cs by (simp add: py_int_def)
qed

lemma bracket_match_index:
  assumes "ds \<noteq> []" "\<forall>c \<in> set ds. is_digit c" "CHR 0x0A \<notin> set n"
  shows "bracket_match (n @ CHR ''['' # ds @ '']'') = Some (n, ds)"
proof -
  have nd: "\<not> is_digit CHR ''[''" by (simp add: is_digit_def)
  have r: "rev (n @ CHR ''['' # ds @ '']'') = CHR '']'' # (rev ds @ CHR ''['' # rev n)" by simp
  have d: "dropWhile is_digit (rev ds @ CHR ''['' # rev n) = CHR ''['' # rev n"
    using assms(2) nd by (simp add: dropWhile_append3)
  have t: "takeWhile is_digit (rev ds @ CHR ''['' # rev n) = rev ds"
    using assms(2) nd by (simp add: takeWhile_tail)
  show ?thesis
    unfolding bracket_match_def r using assms(1,3) by (simp add: d t)
qed

lemma split_dot_nodot: "CHR ''.'' \<notin> set x \<Longrightarrow> split_dot (x @ CHR ''.'' # ys) = x # split_dot ys"
  by (induction x) auto

lemma split_dot_nodot_end: "CHR ''.'' \<notin> set x \<Longrightarrow> split_dot x = [x]"
  by (induction x) auto


lemma serialize_rest_pieces:
  "wf_segs ks \<Longrightarrow> serialize_rest ks = concat (map (\<lambda>y. CHR ''.'' # y) (pieces ks))"
  by (induction ks rule: wf_segs.induct) auto

lemma serialize_path_pieces:
  "wf_segs ks \<Longrightarrow> ks \<noteq> [] \<Longrightarrow>
   serialize_path ks = hd (pieces ks) @ concat (map (\<lambda>y. CHR ''.'' # y) (tl (pieces ks)))"
  by (cases ks rule: wf_segs.cases) (simp_all add: serialize_rest_pieces del: serialize_rest.simps(2))

lemma str_of_int_nodot: "CHR ''.'' \<notin> set (str_of_int i)"
  using digits_of_digits digit_not_sign by (auto simp: str_of_int_def)

lemma pieces_nodot: "wf_segs ks \<Longrightarrow> \<forall>x \<in> set (pieces ks). CHR ''.'' \<notin> set x"
  by (induction ks rule: wf_segs.induct) (auto simp: str_of_int_nodot)

lemma split_dot_join:
  "CHR ''.'' \<notin> set x \<Longrightarrow> \<forall>y \<in> set ys. CHR ''.'' \<notin> set y \<Longrightarrow>
   split_dot (x @ concat (map (\<lambda>y. CHR ''.'' # y) ys)) = x # ys"
  by (induction ys arbitrary: x) (auto simp: split_dot_nodot split_dot_nodot_end)

lemma to_key_pieces:
  "wf_segs ks \<Longrightarrow> map to_key (concat (map split_bracket (pieces ks))) = ks"
proof (induction ks rule: wf_segs.induct)
  case (2 n i ks)
  then have i: "0 \<le> i" and n: "py_int n = None" "CHR 0x0A \<notin> set n" and w: "wf_segs ks" by auto
  have "bracket_match (n @ CHR ''['' # digits_of (nat i) @ '']'') = Some (n, digits_of (nat i))"
    by (rule bracket_match_index [OF digits_of_nonempty digits_of_digits n(2)])
  then have "split_bracket (n @ serialize_seg (KInt i)) = [n, digits_of (nat i)]"
    using i by (simp add: split_bracket_def str_of_int_def)
  moreover have "to_key n = KStr n" using n by (simp add: to_key_def)
  moreover have "to_key (digits_of (nat i)) = KInt i"
    using i by (simp add: to_key_def py_int_digits_of)
  ultimately show ?case using 2 w by simp
qed (auto simp: split_bracket_def to_key_def)

text \<open>
  C8, as stated: every path of field names that \<^verbatim>\<open>int\<close> rejects and of non-negative
  indexes is recovered by parsing its serialized form. The statement fails on two indexes
  in a row: the path \<^verbatim>\<open>('z', 0, 1)\<close> is serialized to \<^verbatim>\<open>z[0][1]\<close>, and the regular
  expression splits only the last bracket index off, so the parse is \<^verbatim>\<open>('z[0]', 1)\<close>.
\<close>

theorem C8_consecutive_indexes_counterexample:
  "py_int ''z'' = None \<and> (0::int) \<le> 0 \<and> (0::int) \<le> 1 \<and>
   serialize_path [KStr ''z'', KInt 0, KInt 1] = ''z[0][1]'' \<and>
   str_to_dict_path (serialize_path [KStr ''z'', KInt 0, KInt 1]) = [KStr ''z[0]'', KInt 1] \<and>
   str_to_dict_path (serialize_path [KStr ''z'', KInt 0, KInt 1]) \<noteq> [KStr ''z'', KInt 0, KInt 1]"
  by code_simp

text \<open>
  C8, amended: for every non-empty path made of groups of one field name optionally
  followed by one non-negative index, where no field name holds a period or is accepted
  by \<^verbatim>\<open>int\<close>, a name before an index holds no newline and a name without an index
  does not itself end in a bracket index, \<^verbatim>\<open>_str_to_dict_path\<close> applied to the
  serialized form yields exactly the path.
\<close>

theorem C8_parse_serialize_roundtrip:
  assumes "wf_path p"
  shows "str_to_dict_path (serialize_path p) = p"
proof -
  from assms have w: "wf_segs p" and ne: "p \<noteq> []" by (auto simp: wf_path_def)
  have pne: "pieces p \<noteq> []" using ne by (cases p rule: pieces.cases) auto
  have nd: "\<forall>x \<in> set (pieces p). CHR ''.'' \<notin> set x" by (rule pieces_nodot [OF w])
  have "split_dot (serialize_path p) = hd (pieces p) # tl (pieces p)"
    unfolding serialize_path_pieces [OF w ne]
    using nd pne by (intro split_dot_join) (auto dest: list.set_sel(2))
  then have "split_dot (serialize_path p) = pieces p" using pne by simp
  then show ?thesis by (simp add: str_to_dict_path_def to_key_pieces [OF w])
qed

theorem C8_parse_serialize_roundtrip_witness:
  "wf_path [KStr ''xaxis'', KStr ''range'', KInt 1, KStr ''a[0]'', KInt 12] \<and>
   serialize_path [KStr ''xaxis'', KStr ''range'', KInt 1, KStr ''a[0]'', KInt 12]
     = ''xaxis.range[1].a[0][12]'' \<and>
   str_to_dict_path ''xaxis.range[1].a[0][12]''
     = [KStr ''xaxis'', KStr ''range'', KInt 1, KStr ''a[0]'', KInt 12]"
proof -
  have w: "wf_path [KStr ''xaxis'', KStr ''range'', KInt 1, KStr ''a[0]'', KInt 12]"
    by code_simp
  have s: "serialize_path [KStr ''xaxis'', KStr ''range'', KInt 1, KStr ''a[0]'', KInt 12]
     = ''xaxis.range[1].a[0][12]''"
    by code_simp
  have "str_to_dict_path
          (serialize_path [KStr ''xaxis'', KStr ''range'', KInt 1, KStr ''a[0]'', KInt 12])
        = [KStr ''xaxis'', KStr ''range'', KInt 1, KStr ''a[0]'', KInt 12]"
    by (rule C8_parse_serialize_roundtrip [OF w])
  then have "str_to_dict_path ''xaxis.range[1].a[0][12]''
        = [KStr ''xaxis'', KStr ''range'', KInt 1, KStr ''a[0]'', KInt 12]"
    by (simp only: s)
  with w s show ?thesis by (intro conjI)
qed

section \<open>Writing at a path: what the returned flag tells\<close>

lemma vals_equal_refl: "nan_free v \<Longrightarrow> vals_equal v v"
proof (induction v)
  case (PList xs)
  have "list_all (\<lambda>(e1, e2). vals_equal e1 e2) (zip xs xs)"
    using PList by (induction xs) auto
  then show ?case by simp
next
  case (PDict d)
  have "\<And>k x. map_of d k = Some x \<Longrightarrow> vals_equal x x"
  proof -
    fix k x assume "map_of d k = Some x"
    then have m: "(k, x) \<in> set d" by (rule map_of_SomeD)
    then have "x \<in> snd ` set d" by force
    with PDict.prems have "nan_free x" by (auto simp: list_all_iff)
    with m show "vals_equal x x" using PDict.IH by (auto simp: snds.simps)
  qed
  moreover have "\<And>k. k \<in> set (map fst d) \<Longrightarrow> \<exists>x. map_of d k = Some x"
    by (metis domD dom_map_of_conv_image_fst set_map)
  ultimately show ?case
    by (auto simp: list_all_iff split: option.splits)
qed simp_all

lemma vals_equal_neq: "vals_equal b b \<Longrightarrow> \<not> vals_equal a b \<Longrightarrow> a \<noteq> b"
  by auto

lemma map_of_Some_key: "map_of d k = Some x \<Longrightarrow> k \<in> fst ` set d"
  by (metis domI dom_map_of_conv_image_fst)

lemma map_of_None_key: "map_of d k = None \<longleftrightarrow> k \<notin> fst ` set d"
  by (simp add: map_of_eq_None_iff)

lemma delete_neq: "map_of d k = Some x \<Longrightarrow> AList.delete k d \<noteq> d"
  using delete_notin_dom [of k d] map_of_Some_key [of d k x] by auto

lemma update_neq: "map_of d k = Some x \<Longrightarrow> x \<noteq> v \<Longrightarrow> AList.update k v d \<noteq> d"
  by (metis update_conv' fun_upd_same option.inject)

lemma update_new_neq: "map_of d k = None \<Longrightarrow> AList.update k v d \<noteq> d"
  by (metis update_conv' fun_upd_same option.distinct(1))

lemma pad_none_id: "i < int (length xs) \<Longrightarrow> pad_none xs i = xs"
  by (simp add: pad_none_def)

lemma pad_none_length: "length xs \<le> length (pad_none xs i)"
  by (simp add: pad_none_def)

lemma pad_none_neq: "pad_none xs i \<noteq> xs \<Longrightarrow> length xs < length (pad_none xs i)"
  by (auto simp: pad_none_def)

lemma pad_none_idem: "pad_none (pad_none xs i) i = pad_none xs i"
  by (auto simp: pad_none_def)

lemma py_index_range:
  "py_index xs i = Inr x \<Longrightarrow> py_pos xs i < length xs \<and> x = xs ! py_pos xs i \<and> i < int (length xs)"
  by (auto simp: py_index_def py_pos_def split: if_splits)

lemma py_index_update:
  "py_index xs i = Inr x \<Longrightarrow> py_index (xs[py_pos xs i := c]) i = Inr c"
  by (auto simp: py_index_def py_pos_def split: if_splits)

lemma py_pos_update [simp]: "py_pos (xs[n := c]) i = py_pos xs i"
  by (simp add: py_pos_def)

lemma py_index_padded_new:
  "\<not> i < int (length xs) \<Longrightarrow> py_index (pad_none xs i) i = Inr PNone"
  by (auto simp: py_index_def py_pos_def pad_none_def nth_append)

subsection \<open>The assignment to the final parent\<close>

lemma assign_last_True_changes:
  assumes "assign_last vp k v = (vp', Inr True)" "v \<noteq> PNone" and sv: "vals_equal v v"
  shows "vp' \<noteq> vp"
proof (cases vp)
  case (PDict d)
  with assms show ?thesis
    by (auto simp: assign_last_def update_new_neq update_neq vals_equal_neq [OF sv]
        split: if_splits option.splits)
next
  case (PList xs)
  show ?thesis
  proof (cases k)
    case (KStr n)
    with assms PList show ?thesis by (auto simp: assign_last_def split: if_splits)
  next
    case (KInt i)
    show ?thesis
    proof (cases "i < int (length xs)")
      case True
      then have p: "pad_none xs i = xs" by (rule pad_none_id)
      from assms PList KInt obtain old where
        o: "py_index xs i = Inr old" "\<not> vals_equal old v" "vp' = PList (xs[py_pos xs i := v])"
        by (auto simp: assign_last_def p Let_def split: if_splits sum.splits)
      from py_index_range [OF o(1)] have "py_pos xs i < length xs" "old = xs ! py_pos xs i" by auto
      moreover have "old \<noteq> v" using sv o(2) by (rule vals_equal_neq)
      ultimately have "xs[py_pos xs i := v] \<noteq> xs"
        by (metis nth_list_update_eq)
      with o(3) PList show ?thesis by simp
    next
      case False
      then have "length xs < length (pad_none xs i)" by (auto simp: pad_none_def)
      moreover from assms PList KInt
      have "\<exists>ys. vp' = PList ys \<and> length ys = length (pad_none xs i)"
        by (auto simp: assign_last_def Let_def split: if_splits sum.splits)
      ultimately show ?thesis using PList by auto
    qed
  qed
qed (use assms in \<open>auto simp: assign_last_def split: if_splits\<close>)

lemma assign_last_False_same:
  assumes "assign_last vp k v = (vp', Inr False)"
  shows "vp' = vp"
proof (cases vp)
  case (PList xs)
  show ?thesis
  proof (cases k)
    case (KStr n)
    with assms PList show ?thesis by (auto simp: assign_last_def split: if_splits)
  next
    case (KInt i)
    show ?thesis
    proof (cases "i < int (length xs)")
      case True
      then have p: "pad_none xs i = xs" by (rule pad_none_id)
      with assms PList KInt show ?thesis
        by (auto simp: assign_last_def Let_def split: if_splits sum.splits)
    next
      case False
      then have "py_index (pad_none xs i) i = Inr PNone" by (rule py_index_padded_new)
      with assms PList KInt False show ?thesis
        by (auto simp: assign_last_def Let_def split: if_splits sum.splits)
    qed
  qed
qed (use assms in \<open>auto simp: assign_last_def split: if_splits option.splits\<close>)

lemma assign_last_idem:
  assumes "assign_last vp k v = (vp', Inr b)" "v \<noteq> PNone" and sv: "vals_equal v v"
  shows "assign_last vp' k v = (vp', Inr False)"
proof (cases b)
  case False
  with assms have "vp' = vp" using assign_last_False_same by simp
  with assms False show ?thesis by simp
next
  case True
  show ?thesis
  proof (cases vp)
    case (PDict d)
    with assms True have "vp' = PDict (AList.update k v d)" "v \<noteq> Undefined"
      by (auto simp: assign_last_def split: if_splits option.splits)
    then show ?thesis using assms(2)
      by (simp add: assign_last_def update_conv' sv)
  next
    case (PList xs)
    show ?thesis
    proof (cases k)
      case (KStr n)
      with assms PList True show ?thesis by (auto simp: assign_last_def split: if_splits)
    next
      case (KInt i)
      let ?xs' = "pad_none xs i"
      from assms PList KInt True obtain old where
        o: "py_index ?xs' i = Inr old" "vp' = PList (?xs'[py_pos ?xs' i := v])" "v \<noteq> Undefined"
        by (auto simp: assign_last_def Let_def split: if_splits sum.splits)
      let ?ys = "?xs'[py_pos ?xs' i := v]"
      from py_index_range [OF o(1)] have "i < int (length ?ys)" by simp
      then have p: "pad_none ?ys i = ?ys" by (rule pad_none_id)
      have "py_index ?ys i = Inr v" using o(1) by (rule py_index_update)
      then show ?thesis using o(2,3) assms(2) KInt
        by (simp add: assign_last_def p sv)
    qed
  qed (use assms True in \<open>auto simp: assign_last_def split: if_splits\<close>)
qed


subsection \<open>The walk along the path\<close>

lemma str_parent_inert_gen:
  "set_in_at vp p v = (vp', r) \<Longrightarrow> \<exists>s. vp = PStr s \<Longrightarrow> vp' = vp \<and> r \<noteq> Inr True"
proof (induction vp p v arbitrary: vp' r rule: set_in_at.induct)
  case (1 val_parent v)
  then show ?case by auto
next
  case (2 val_parent last_key v)
  then show ?case by (auto simp: assign_last_def split: if_splits)
next
  case (3 val_parent k nxt ks v)
  from 3(3) obtain s where s: "val_parent = PStr s" by blast
  then have e: "extend_parent val_parent k nxt = val_parent" by simp
  show ?case
  proof (cases "py_getitem val_parent k")
    case (Inl e')
    with 3(2) e show ?thesis by auto
  next
    case (Inr child)
    then have c: "\<exists>c. child = PStr c"
      using s by (cases k) (auto split: sum.splits)
    obtain child' r' where rec: "set_in_at child (nxt # ks) v = (child', r')"
      by (cases "set_in_at child (nxt # ks) v")
    have "child' = child \<and> r' \<noteq> Inr True"
      using 3(1) [OF refl _ rec c] e Inr by simp
    with 3(2) Inr rec e s show ?thesis by auto
  qed
qed

lemma str_parent_inert:
  "set_in_at (PStr s) p v = (vp', r) \<Longrightarrow> vp' = PStr s \<and> r \<noteq> Inr True"
  using str_parent_inert_gen [of "PStr s" p v vp' r] by simp

lemma length_update_present: "k \<in> fst ` set d \<Longrightarrow> length (AList.update k v d) = length d"
  by (induction d) auto

lemma getitem_no_extend:
  "py_getitem vp k = Inr c \<Longrightarrow> extend_parent vp k nxt = vp"
proof (cases vp)
  case (PList xs)
  assume g: "py_getitem vp k = Inr c"
  show ?thesis
  proof (cases k)
    case (KInt i)
    with g PList have "py_index xs i = Inr c" by simp
    from py_index_range [OF this] have "i < int (length xs)" by simp
    then show ?thesis using PList KInt by (simp add: pad_none_id)
  qed (use PList in simp)
qed (auto split: option.splits)

lemma replace_child_same:
  "py_getitem vp k = Inr c \<Longrightarrow> replace_child vp k c = vp"
proof (cases vp)
  case (PList xs)
  assume g: "py_getitem vp k = Inr c"
  show ?thesis
  proof (cases k)
    case (KInt i)
    with g PList have "py_index xs i = Inr c" by simp
    from py_index_range [OF this] show ?thesis using PList KInt by simp
  qed (use PList in simp)
next
  case (PDict d)
  assume "py_getitem vp k = Inr c"
  with PDict show ?thesis by (auto simp: update_triv split: option.splits)
qed auto

lemma getitem_replace_child:
  assumes "py_getitem vp k = Inr c" "\<forall>s. vp \<noteq> PStr s"
  shows "py_getitem (replace_child vp k c') k = Inr c'"
proof (cases vp)
  case (PList xs)
  show ?thesis
  proof (cases k)
    case (KInt i)
    with assms PList have "py_index xs i = Inr c" by simp
    from py_index_update [OF this] show ?thesis using PList KInt by simp
  qed (use PList assms in simp)
next
  case (PDict d)
  then show ?thesis by (simp add: update_conv')
qed (use assms in auto)

lemma replace_child_neq:
  assumes "py_getitem vp k = Inr c" "c' \<noteq> c" "\<forall>s. vp \<noteq> PStr s"
  shows "replace_child vp k c' \<noteq> vp"
  using getitem_replace_child [OF assms(1,3), of c'] assms(1,2) by auto

lemma clen_replace_child:
  "py_getitem vp k = Inr c \<Longrightarrow> clen (replace_child vp k c') = clen vp"
proof (cases vp)
  case (PDict d)
  assume "py_getitem vp k = Inr c"
  with PDict have "k \<in> fst ` set d" by (auto split: option.splits dest: map_of_Some_key)
  then show ?thesis using PDict by (simp add: length_update_present)
next
  case (PList xs)
  then show ?thesis by (cases k) auto
qed auto

lemma clen_extend_parent:
  "extend_parent vp k nxt \<noteq> vp \<Longrightarrow> clen vp < clen (extend_parent vp k nxt)"
proof (cases vp)
  case (PList xs)
  assume a: "extend_parent vp k nxt \<noteq> vp"
  show ?thesis
  proof (cases k)
    case (KInt i)
    with a PList have "pad_none xs i \<noteq> xs" by simp
    from pad_none_neq [OF this] show ?thesis using PList KInt by simp
  qed (use a PList in simp)
qed (auto split: if_splits)

lemma extend_parent_str: "(extend_parent vp k nxt = PStr s) = (vp = PStr s)"
  by (cases "(vp, k, nxt)" rule: extend_parent.cases) auto

lemma set_in_at_True_changes:
  "set_in_at vp p v = (vp', Inr True) \<Longrightarrow> v \<noteq> PNone \<Longrightarrow> vals_equal v v \<Longrightarrow> vp' \<noteq> vp"
proof (induction vp p v arbitrary: vp' rule: set_in_at.induct)
  case (1 val_parent v)
  then show ?case by simp
next
  case (2 val_parent last_key v)
  then show ?case using assign_last_True_changes by simp
next
  case (3 val_parent k nxt ks v)
  let ?vp = "extend_parent val_parent k nxt"
  from 3(2) obtain child child' where
    g: "py_getitem ?vp k = Inr child" and
    rec: "set_in_at child (nxt # ks) v = (child', Inr True)" and
    res: "vp' = replace_child ?vp k child'"
    by (auto simp: Let_def split: sum.splits prod.splits)
  have ns: "\<forall>s. ?vp \<noteq> PStr s"
  proof (intro allI notI)
    fix s assume s: "?vp = PStr s"
    from g s obtain c where "child = PStr c" by (cases k) (auto split: sum.splits)
    with rec str_parent_inert show False by blast
  qed
  have ne: "child' \<noteq> child" using 3(1) [OF refl g rec 3(3,4)] .
  have a: "replace_child ?vp k child' \<noteq> ?vp" by (rule replace_child_neq [OF g ne ns])
  show ?case
  proof (cases "?vp = val_parent")
    case True
    with a res show ?thesis by simp
  next
    case False
    from clen_extend_parent [OF False] clen_replace_child [OF g, of child'] res
    show ?thesis by auto
  qed
qed

lemma set_in_at_False_same:
  "set_in_at vp p v = (vp', Inr False) \<Longrightarrow> navigate vp (butlast p) = Inr parent \<Longrightarrow> vp' = vp"
proof (induction vp p v arbitrary: vp' rule: set_in_at.induct)
  case (1 val_parent v)
  then show ?case by simp
next
  case (2 val_parent last_key v)
  then show ?case using assign_last_False_same by simp
next
  case (3 val_parent k nxt ks v)
  from 3(3) obtain c where c: "py_getitem val_parent k = Inr c"
    and n: "navigate c (butlast (nxt # ks)) = Inr parent"
    by (auto split: sum.splits)
  have e: "extend_parent val_parent k nxt = val_parent" by (rule getitem_no_extend [OF c])
  from 3(2) e c obtain child' where
    rec: "set_in_at c (nxt # ks) v = (child', Inr False)" and
    res: "vp' = replace_child val_parent k child'"
    by (auto simp: Let_def split: sum.splits prod.splits)
  have "child' = c" using 3(1) [OF refl _ rec n] e c by simp
  with res replace_child_same [OF c] show ?case by simp
qed

lemma set_in_at_idem:
  "set_in_at vp p v = (vp', Inr b) \<Longrightarrow> v \<noteq> PNone \<Longrightarrow> vals_equal v v \<Longrightarrow>
   set_in_at vp' p v = (vp', Inr False)"
proof (induction vp p v arbitrary: vp' b rule: set_in_at.induct)
  case (1 val_parent v)
  then show ?case by simp
next
  case (2 val_parent last_key v)
  then show ?case using assign_last_idem by simp
next
  case (3 val_parent k nxt ks v)
  let ?vp = "extend_parent val_parent k nxt"
  from 3(2) obtain child child' where
    g: "py_getitem ?vp k = Inr child" and
    rec: "set_in_at child (nxt # ks) v = (child', Inr b)" and
    res: "vp' = replace_child ?vp k child'"
    by (auto simp: Let_def split: sum.splits prod.splits)
  have ih: "set_in_at child' (nxt # ks) v = (child', Inr False)"
    using 3(1) [OF refl g rec 3(3,4)] .
  have g': "py_getitem vp' k = Inr child'"
  proof (cases "\<exists>s. ?vp = PStr s")
    case True
    then obtain s where s: "?vp = PStr s" by blast
    from g s obtain c where c: "child = PStr c" by (cases k) (auto split: sum.splits)
    with rec str_parent_inert have "child' = child" by blast
    moreover have "vp' = ?vp" using res s by simp
    ultimately show ?thesis using g by simp
  next
    case False
    then show ?thesis using getitem_replace_child [OF g] res by simp
  qed
  have e: "extend_parent vp' k nxt = vp'" by (rule getitem_no_extend [OF g'])
  have r: "replace_child vp' k child' = vp'" by (rule replace_child_same [OF g'])
  show ?case using e g' ih r by (simp add: Let_def)
qed

lemma set_in_at_Undefined: "set_in_at vp p Undefined = (vp', r) \<Longrightarrow> r \<noteq> Inr True"
proof (induction vp p "Undefined" arbitrary: vp' r rule: set_in_at.induct)
  case (1 val_parent)
  then show ?case by auto
next
  case (2 val_parent last_key)
  then show ?case by (auto simp: assign_last_def)
next
  case (3 val_parent k nxt ks)
  then show ?case by (auto simp: Let_def split: sum.splits prod.splits)
qed

lemma set_in_at_navigate:
  "navigate vp (butlast p) = Inr parent \<Longrightarrow> p \<noteq> [] \<Longrightarrow>
   snd (set_in_at vp p v) = snd (assign_last parent (last p) v)"
proof (induction vp p v rule: set_in_at.induct)
  case (3 val_parent k nxt ks v)
  from 3(2) obtain c where c: "py_getitem val_parent k = Inr c"
    and n: "navigate c (butlast (nxt # ks)) = Inr parent"
    by (auto split: sum.splits)
  have e: "extend_parent val_parent k nxt = val_parent" by (rule getitem_no_extend [OF c])
  have ih: "snd (set_in_at c (nxt # ks) v) = snd (assign_last parent (last (nxt # ks)) v)"
    using 3(1) [OF refl _ n] e c by simp
  have "snd (set_in_at val_parent (k # nxt # ks) v) = snd (set_in_at c (nxt # ks) v)"
    using e c by (simp add: Let_def split: prod.splits)
  also note ih
  finally show ?case by simp
qed simp_all

lemma assign_last_null_dict:
  "assign_last (PDict m) k PNone = (vp', Inr b) \<Longrightarrow>
   (b \<longleftrightarrow> map_of m k \<noteq> None) \<and> (b \<longleftrightarrow> vp' \<noteq> PDict m)"
  by (auto simp: assign_last_def delete_neq split: if_splits)

lemma assign_last_null_list:
  "assign_last (PList xs) k PNone = (vp', Inr b) \<Longrightarrow>
   (b \<longleftrightarrow> (\<exists>i. k = KInt i \<and> 0 \<le> i \<and> i < int (length xs)))"
  by (cases k) (auto simp: assign_last_def split: if_splits)

lemma assign_last_value_dict:
  "assign_last (PDict m) k v = (vp', Inr b) \<Longrightarrow> v \<noteq> PNone \<Longrightarrow> v \<noteq> Undefined \<Longrightarrow>
   (b \<longleftrightarrow> (case map_of m k of None \<Rightarrow> True | Some old \<Rightarrow> \<not> vals_equal old v))"
  by (auto simp: assign_last_def split: if_splits option.splits)

lemma set_in_at_null_dict_changes:
  "set_in_at vp p PNone = (vp', Inr True) \<Longrightarrow> navigate vp (butlast p) = Inr (PDict m) \<Longrightarrow>
   vp' \<noteq> vp"
proof (induction vp p PNone arbitrary: vp' rule: set_in_at.induct)
  case (1 val_parent)
  then show ?case by simp
next
  case (2 val_parent last_key)
  then show ?case using assign_last_null_dict [of m last_key vp' True] by simp
next
  case (3 val_parent k nxt ks)
  from 3(3) obtain c where c: "py_getitem val_parent k = Inr c"
    and n: "navigate c (butlast (nxt # ks)) = Inr (PDict m)"
    by (auto split: sum.splits)
  have e: "extend_parent val_parent k nxt = val_parent" by (rule getitem_no_extend [OF c])
  from 3(2) e c obtain child' where
    rec: "set_in_at c (nxt # ks) PNone = (child', Inr True)" and
    res: "vp' = replace_child val_parent k child'"
    by (auto simp: Let_def split: sum.splits prod.splits)
  have ne: "child' \<noteq> c" using 3(1) [OF refl _ rec n] e c by simp
  have ns: "\<forall>s. val_parent \<noteq> PStr s"
  proof (intro allI notI)
    fix s assume s: "val_parent = PStr s"
    from c s obtain t where "c = PStr t" by (cases k) (auto split: sum.splits)
    with rec str_parent_inert show False by blast
  qed
  from replace_child_neq [OF c ne ns] res show ?case by simp
qed

lemma set_in_at_dict:
  "set_in_at (PDict m0) p v = (d', r) \<Longrightarrow> \<exists>m1. d' = PDict m1"
proof (cases p)
  case Nil
  assume "set_in_at (PDict m0) p v = (d', r)"
  with Nil show ?thesis by auto
next
  case (Cons k ks)
  assume a: "set_in_at (PDict m0) p v = (d', r)"
  show ?thesis
  proof (cases ks)
    case Nil
    with a Cons show ?thesis
      by (auto simp: assign_last_def split: if_splits option.splits)
  next
    case (Cons nxt rest)
    with a \<open>p = k # ks\<close> show ?thesis
      by (auto simp: Let_def split: if_splits option.splits sum.splits prod.splits)
  qed
qed

lemma str_parent_error:
  "set_in_at vp p v = (vp', r) \<Longrightarrow> \<exists>s. vp = PStr s \<Longrightarrow> v \<noteq> Undefined \<Longrightarrow> \<exists>e. r = Inl e"
proof (induction vp p v arbitrary: vp' r rule: set_in_at.induct)
  case (1 val_parent v)
  then show ?case by auto
next
  case (2 val_parent last_key v)
  then show ?case by (auto simp: assign_last_def split: if_splits)
next
  case (3 val_parent k nxt ks v)
  from 3(3) obtain s where s: "val_parent = PStr s" by blast
  then have e: "extend_parent val_parent k nxt = val_parent" by simp
  show ?case
  proof (cases "py_getitem val_parent k")
    case (Inl e')
    with 3(2) e show ?thesis by auto
  next
    case (Inr child)
    then have c: "\<exists>c. child = PStr c"
      using s by (cases k) (auto split: sum.splits)
    obtain child' r' where rec: "set_in_at child (nxt # ks) v = (child', r')"
      by (cases "set_in_at child (nxt # ks) v")
    have "\<exists>e. r' = Inl e"
      using 3(1) [OF refl _ rec c 3(4)] e Inr by simp
    with 3(2) Inr rec e s show ?thesis by auto
  qed
qed

text \<open>
  When the call returns a flag, the final parent is found again along the path, and it is
  what the assignment made of the parent that the walk ended in.
\<close>

lemma set_in_at_final_parent:
  "set_in_at vp p v = (vp', Inr b) \<Longrightarrow> v \<noteq> Undefined \<Longrightarrow>
   \<exists>parent parent'. navigate vp' (butlast p) = Inr parent' \<and>
      assign_last parent (last p) v = (parent', Inr b)"
proof (induction vp p v arbitrary: vp' rule: set_in_at.induct)
  case (1 val_parent v)
  then show ?case by simp
next
  case (2 val_parent last_key v)
  then show ?case by auto
next
  case (3 val_parent k nxt ks v)
  let ?vp = "extend_parent val_parent k nxt"
  from 3(2) obtain child child' where
    g: "py_getitem ?vp k = Inr child" and
    rec: "set_in_at child (nxt # ks) v = (child', Inr b)" and
    res: "vp' = replace_child ?vp k child'"
    by (auto simp: Let_def split: sum.splits prod.splits)
  have ns: "\<forall>s. ?vp \<noteq> PStr s"
  proof (intro allI notI)
    fix s assume s: "?vp = PStr s"
    from g s obtain c where "child = PStr c" by (cases k) (auto split: sum.splits)
    with rec str_parent_error [of child "nxt # ks" v child' "Inr b"] 3(3) show False by auto
  qed
  from 3(1) [OF refl g rec 3(3)] obtain parent parent' where
    n: "navigate child' (butlast (nxt # ks)) = Inr parent'" and
    a: "assign_last parent (last (nxt # ks)) v = (parent', Inr b)"
    by blast
  from getitem_replace_child [OF g ns, of child'] res
  have "py_getitem vp' k = Inr child'" by simp
  with n have "navigate vp' (butlast (k # nxt # ks)) = Inr parent'" by simp
  with a show ?case by auto
qed

lemma assign_last_value_read:
  assumes "assign_last parent k v = (parent', Inr b)" "v \<noteq> PNone" "v \<noteq> Undefined"
    and "\<not> (\<exists>ys n. parent' = PList ys \<and> k = KStr n)"
  shows "\<exists>x. py_getitem parent' k = Inr x \<and> (b \<longrightarrow> x = v) \<and> (\<not> b \<longrightarrow> vals_equal x v)"
proof (cases parent)
  case (PDict d)
  with assms show ?thesis
    by (auto simp: assign_last_def update_conv' split: if_splits option.splits)
next
  case (PList xs)
  show ?thesis
  proof (cases k)
    case (KStr n)
    with assms PList show ?thesis by (auto simp: assign_last_def)
  next
    case (KInt i)
    let ?xs' = "pad_none xs i"
    from assms PList KInt obtain old where
      o: "py_index ?xs' i = Inr old"
      by (auto simp: assign_last_def Let_def split: if_splits sum.splits)
    show ?thesis
    proof (cases b)
      case True
      with assms PList KInt o have "parent' = PList (?xs'[py_pos ?xs' i := v])"
        by (auto simp: assign_last_def Let_def split: if_splits)
      with py_index_update [OF o, of v] True KInt show ?thesis by simp
    next
      case False
      with assms PList KInt o have "parent' = PList ?xs'" "vals_equal old v"
        by (auto simp: assign_last_def Let_def split: if_splits)
      with o False KInt show ?thesis by simp
    qed
  qed
qed (use assms in \<open>auto simp: assign_last_def split: if_splits\<close>)

lemma assign_last_null_read:
  assumes "assign_last parent k PNone = (parent', Inr b)"
  shows "(parent' = PDict m' \<longrightarrow> map_of m' k = None) \<and>
         (parent' = PList ys \<longrightarrow> k = KInt i \<longrightarrow> 0 \<le> i \<longrightarrow> i < int (length ys) \<longrightarrow>
            ys ! nat i = PNone)"
proof (cases parent)
  case (PDict d)
  with assms show ?thesis
    by (auto simp: assign_last_def delete_conv' split: if_splits)
next
  case (PList xs)
  with assms show ?thesis
    by (cases k) (auto simp: assign_last_def split: if_splits)
qed (use assms in \<open>auto simp: assign_last_def split: if_splits\<close>)

lemma assign_last_null_list_flag:
  assumes "assign_last (PList xs) (KInt i) PNone = (vp', Inr b)"
  shows "(\<not> (0 \<le> i \<and> i < int (length xs)) \<longrightarrow> \<not> b) \<and>
         (0 \<le> i \<and> i < int (length xs) \<and> xs ! nat i \<noteq> PNone \<longrightarrow> b \<and> vp' \<noteq> PList xs)"
proof -
  have "xs[nat i := PNone] \<noteq> xs" if "0 \<le> i" "i < int (length xs)" "xs ! nat i \<noteq> PNone"
  proof -
    from that have "nat i < length xs" by simp
    then have "xs[nat i := PNone] ! nat i = PNone" by simp
    with that(3) show ?thesis by metis
  qed
  with assms show ?thesis by (auto simp: assign_last_def split: if_splits)
qed

lemma assign_last_value_list:
  assumes "assign_last (PList xs) (KInt i) v = (vp', Inr b)" "v \<noteq> PNone" "v \<noteq> Undefined"
  shows "b \<longleftrightarrow> \<not> vals_equal (pad_none xs i ! py_pos (pad_none xs i) i) v"
proof -
  let ?xs' = "pad_none xs i"
  from assms obtain old where o: "py_index ?xs' i = Inr old"
    by (auto simp: assign_last_def Let_def split: if_splits sum.splits)
  from py_index_range [OF o] have "old = ?xs' ! py_pos ?xs' i" by simp
  with assms o show ?thesis
    by (auto simp: assign_last_def Let_def split: if_splits)
qed

lemma set_in_at_parent_changes:
  assumes "set_in_at vp p v = (vp', r)" "navigate vp (butlast p) = Inr parent"
    "navigate vp' (butlast p) = Inr parent'" "parent' \<noteq> parent"
  shows "vp' \<noteq> vp"
  using assms by auto

text \<open>
  A value that is not deep-equal to itself is written and reported every time: the float
  \<^verbatim>\<open>nan\<close> over itself gives \<^verbatim>\<open>True\<close> again, since \<^verbatim>\<open>nan == nan\<close> is false.
\<close>

lemma set_in_nan_twice:
  "set_in (PDict []) ''x'' PNaN = (PDict [(KStr ''x'', PNaN)], Inr True) \<and>
   set_in (PDict [(KStr ''x'', PNaN)]) ''x'' PNaN = (PDict [(KStr ''x'', PNaN)], Inr True)"
  by code_simp

text \<open>
  C3, as stated: \<^verbatim>\<open>_set_in\<close> returns \<^verbatim>\<open>True\<close> if and only if the call changed the dict.
  Writing \<^verbatim>\<open>None\<close> at \<^verbatim>\<open>'a.b'\<close> into the empty dict creates the dict under
  \<^verbatim>\<open>'a'\<close> and returns \<^verbatim>\<open>False\<close>.
\<close>

theorem C3_unreported_creation_counterexample:
  "set_in (PDict []) ''a.b'' PNone = (PDict [(KStr ''a'', PDict [])], Inr False) \<and>
   PDict [(KStr ''a'', PDict [])] \<noteq> PDict []"
  by code_simp

text \<open>
  C3, amended: the flag that \<^verbatim>\<open>_set_in\<close> returns tells whether the assignment at the
  end of the path altered the final parent; containers created or padded on the way are
  not reported. For a call that returns a flag: the flag is never \<^verbatim>\<open>True\<close> for
  \<^verbatim>\<open>Undefined\<close>; for a value other than \<^verbatim>\<open>None\<close> that is deep-equal to itself (as
  every value without \<^verbatim>\<open>nan\<close> is), \<^verbatim>\<open>True\<close> means that the dict changed, and a second
  call with the same value returns \<^verbatim>\<open>False\<close> and leaves the dict as the first call left
  it. When every container before the last key already exists, \<^verbatim>\<open>False\<close> means that the
  dict is unchanged; for \<^verbatim>\<open>None\<close> on a map the flag tells whether the key was there and
  removed (if and only if the dict changed); for \<^verbatim>\<open>None\<close> on a list it is \<^verbatim>\<open>False\<close>
  for an index out of range and \<^verbatim>\<open>True\<close>, with the dict changed, for a slot that held
  another value; for a concrete value the flag tells, on a map, whether the key was missing
  or held a value that is not deep-equal to the new one, and on a list, whether the slot
  (\<^verbatim>\<open>None\<close> where the list had to be padded) held a value that is not deep-equal to the
  new one. After the call the final parent is found along the path: for a concrete value
  it holds at the last key the new value if the flag is \<^verbatim>\<open>True\<close> and a value deep-equal
  to it otherwise (nothing is written for a string key on a list, and the flag is
  \<^verbatim>\<open>False\<close>); for \<^verbatim>\<open>None\<close> a map has not the key and a list slot in range holds
  \<^verbatim>\<open>None\<close>.
\<close>

theorem C3_set_in_flag:
  assumes "set_in d key_path_str v = (d', Inr b)"
  shows "(v = Undefined \<longrightarrow> \<not> b) \<and>
         (nan_free v \<longrightarrow> vals_equal v v) \<and>
         (v \<noteq> PNone \<longrightarrow> vals_equal v v \<longrightarrow> b \<longrightarrow> d' \<noteq> d) \<and>
         (v \<noteq> PNone \<longrightarrow> vals_equal v v \<longrightarrow> set_in d' key_path_str v = (d', Inr False)) \<and>
         (navigate d (butlast (str_to_dict_path key_path_str)) = Inr parent \<longrightarrow>
            (\<not> b \<longrightarrow> d' = d) \<and>
            (v = PNone \<longrightarrow> parent = PDict m \<longrightarrow>
               (b \<longleftrightarrow> map_of m (last (str_to_dict_path key_path_str)) \<noteq> None) \<and>
               (b \<longleftrightarrow> d' \<noteq> d)) \<and>
            (v = PNone \<longrightarrow> parent = PList xs \<longrightarrow>
             last (str_to_dict_path key_path_str) = KInt i \<longrightarrow>
               (\<not> (0 \<le> i \<and> i < int (length xs)) \<longrightarrow> \<not> b) \<and>
               (0 \<le> i \<and> i < int (length xs) \<and> xs ! nat i \<noteq> PNone \<longrightarrow> b \<and> d' \<noteq> d)) \<and>
            (v \<noteq> PNone \<longrightarrow> v \<noteq> Undefined \<longrightarrow> parent = PDict m \<longrightarrow>
               (b \<longleftrightarrow> (case map_of m (last (str_to_dict_path key_path_str)) of
                          None \<Rightarrow> True | Some old \<Rightarrow> \<not> vals_equal old v))) \<and>
            (v \<noteq> PNone \<longrightarrow> v \<noteq> Undefined \<longrightarrow> parent = PList xs \<longrightarrow>
             last (str_to_dict_path key_path_str) = KInt i \<longrightarrow>
               (b \<longleftrightarrow> \<not> vals_equal (pad_none xs i ! py_pos (pad_none xs i) i) v))) \<and>
         (v \<noteq> Undefined \<longrightarrow>
            (\<exists>parent'. navigate d' (butlast (str_to_dict_path key_path_str)) = Inr parent' \<and>
               (v \<noteq> PNone \<longrightarrow>
                  (if \<exists>ys n. parent' = PList ys \<and> last (str_to_dict_path key_path_str) = KStr n
                   then \<not> b
                   else \<exists>x. py_getitem parent' (last (str_to_dict_path key_path_str)) = Inr x \<and>
                          (b \<longrightarrow> x = v) \<and> (\<not> b \<longrightarrow> vals_equal x v))) \<and>
               (v = PNone \<longrightarrow>
                  (\<forall>m'. parent' = PDict m' \<longrightarrow>
                     map_of m' (last (str_to_dict_path key_path_str)) = None) \<and>
                  (\<forall>ys j. parent' = PList ys \<longrightarrow>
                     last (str_to_dict_path key_path_str) = KInt j \<longrightarrow> 0 \<le> j \<longrightarrow>
                     j < int (length ys) \<longrightarrow> ys ! nat j = PNone))))"
proof -
  let ?p = "str_to_dict_path key_path_str"
  from assms obtain m0 where d: "d = PDict m0"
    by (cases d) (auto simp: set_in_def)
  with assms have at: "set_in_at d ?p v = (d', Inr b)" by (simp add: set_in_def)
  have pne: "?p \<noteq> []" using at by (cases ?p) auto
  have 1: "v = Undefined \<longrightarrow> \<not> b"
    using at set_in_at_Undefined [of d ?p d' "Inr b"] by auto
  have nf: "nan_free v \<longrightarrow> vals_equal v v" using vals_equal_refl by simp
  have 2: "v \<noteq> PNone \<longrightarrow> vals_equal v v \<longrightarrow> b \<longrightarrow> d' \<noteq> d"
    using at set_in_at_True_changes [of d ?p v d'] by auto
  have 3: "\<not> b \<longrightarrow> d' = d" if "navigate d (butlast ?p) = Inr parent"
    using at that set_in_at_False_same [of d ?p v d' parent] by auto
  have s: "Inr b = snd (assign_last parent (last ?p) v)"
    if "navigate d (butlast ?p) = Inr parent"
    using set_in_at_navigate [OF that pne, of v] at by simp
  have 4: "(b \<longleftrightarrow> map_of m (last ?p) \<noteq> None) \<and> (b \<longleftrightarrow> d' \<noteq> d)"
    if n: "navigate d (butlast ?p) = Inr parent" and v: "v = PNone" and pm: "parent = PDict m"
  proof -
    obtain x where x: "assign_last (PDict m) (last ?p) PNone = (x, Inr b)"
      using s [OF n] v pm by (cases "assign_last (PDict m) (last ?p) PNone") auto
    from assign_last_null_dict [OF x] have a: "b \<longleftrightarrow> map_of m (last ?p) \<noteq> None" by simp
    have "b \<Longrightarrow> d' \<noteq> d"
      using set_in_at_null_dict_changes [of d ?p d' m] at v n pm by auto
    moreover have "\<not> b \<Longrightarrow> d' = d" using 3 [OF n] by simp
    ultimately show ?thesis using a by auto
  qed
  have fp: "\<exists>parent0 parent'. navigate d' (butlast ?p) = Inr parent' \<and>
      assign_last parent0 (last ?p) v = (parent', Inr b)" if "v \<noteq> Undefined"
    using set_in_at_final_parent [OF at that] .
  have 5: "(\<not> (0 \<le> i \<and> i < int (length xs)) \<longrightarrow> \<not> b) \<and>
           (0 \<le> i \<and> i < int (length xs) \<and> xs ! nat i \<noteq> PNone \<longrightarrow> b \<and> d' \<noteq> d)"
    if n: "navigate d (butlast ?p) = Inr parent" and v: "v = PNone" and pm: "parent = PList xs"
      and lk: "last ?p = KInt i"
  proof -
    obtain x where x: "assign_last (PList xs) (KInt i) PNone = (x, Inr b)"
      using s [OF n] v pm lk by (cases "assign_last (PList xs) (KInt i) PNone") auto
    note f = assign_last_null_list_flag [OF x]
    have "d' \<noteq> d" if r: "0 \<le> i" "i < int (length xs)" "xs ! nat i \<noteq> PNone"
    proof -
      from fp v obtain parent0 parent' where
        n': "navigate d' (butlast ?p) = Inr parent'" and
        a': "assign_last parent0 (last ?p) PNone = (parent', Inr b)"
        by auto
      show ?thesis
      proof
        assume "d' = d"
        with n n' pm have pp: "parent' = PList xs" by simp
        from assign_last_null_read [OF a', of _ xs i] pp lk r show False by simp
      qed
    qed
    with f show ?thesis by blast
  qed
  have 6: "b \<longleftrightarrow> (case map_of m (last ?p) of None \<Rightarrow> True | Some old \<Rightarrow> \<not> vals_equal old v)"
    if n: "navigate d (butlast ?p) = Inr parent" and v: "v \<noteq> PNone" "v \<noteq> Undefined"
      and pm: "parent = PDict m"
  proof -
    obtain x where x: "assign_last (PDict m) (last ?p) v = (x, Inr b)"
      using s [OF n] pm by (cases "assign_last (PDict m) (last ?p) v") auto
    from assign_last_value_dict [OF x v] show ?thesis .
  qed
  have vl: "b \<longleftrightarrow> \<not> vals_equal (pad_none xs i ! py_pos (pad_none xs i) i) v"
    if n: "navigate d (butlast ?p) = Inr parent" and v: "v \<noteq> PNone" "v \<noteq> Undefined"
      and pm: "parent = PList xs" and lk: "last ?p = KInt i"
  proof -
    obtain x where x: "assign_last (PList xs) (KInt i) v = (x, Inr b)"
      using s [OF n] pm lk by (cases "assign_last (PList xs) (KInt i) v") auto
    from assign_last_value_list [OF x v] show ?thesis .
  qed
  have d': "\<exists>m1. d' = PDict m1"
    using set_in_at_dict [of m0 ?p v d' "Inr b"] at d by simp
  have 7: "v \<noteq> PNone \<longrightarrow> vals_equal v v \<longrightarrow> set_in d' key_path_str v = (d', Inr False)"
    using set_in_at_idem [OF at] d' by (auto simp: set_in_def)
  have 8: "\<exists>parent'. navigate d' (butlast ?p) = Inr parent' \<and>
               (v \<noteq> PNone \<longrightarrow>
                  (if \<exists>ys n. parent' = PList ys \<and> last ?p = KStr n
                   then \<not> b
                   else \<exists>x. py_getitem parent' (last ?p) = Inr x \<and>
                          (b \<longrightarrow> x = v) \<and> (\<not> b \<longrightarrow> vals_equal x v))) \<and>
               (v = PNone \<longrightarrow>
                  (\<forall>m'. parent' = PDict m' \<longrightarrow> map_of m' (last ?p) = None) \<and>
                  (\<forall>ys j. parent' = PList ys \<longrightarrow> last ?p = KInt j \<longrightarrow> 0 \<le> j \<longrightarrow>
                     j < int (length ys) \<longrightarrow> ys ! nat j = PNone))"
    if u: "v \<noteq> Undefined"
  proof -
    from fp [OF u] obtain parent0 parent' where
      n': "navigate d' (butlast ?p) = Inr parent'" and
      a': "assign_last parent0 (last ?p) v = (parent', Inr b)"
      by blast
    have c: "if \<exists>ys n. parent' = PList ys \<and> last ?p = KStr n
                   then \<not> b
                   else \<exists>x. py_getitem parent' (last ?p) = Inr x \<and>
                          (b \<longrightarrow> x = v) \<and> (\<not> b \<longrightarrow> vals_equal x v)" if vn: "v \<noteq> PNone"
    proof (cases "\<exists>ys n. parent' = PList ys \<and> last ?p = KStr n")
      case True
      then obtain ys n where yn: "parent' = PList ys" "last ?p = KStr n" by blast
      from a' yn vn u have "\<not> b"
        by (cases parent0) (auto simp: assign_last_def split: if_splits option.splits)
      with True show ?thesis by simp
    next
      case False
      from assign_last_value_read [OF a' vn u False] False show ?thesis by auto
    qed
    have e: "(\<forall>m'. parent' = PDict m' \<longrightarrow> map_of m' (last ?p) = None) \<and>
                  (\<forall>ys j. parent' = PList ys \<longrightarrow> last ?p = KInt j \<longrightarrow> 0 \<le> j \<longrightarrow>
                     j < int (length ys) \<longrightarrow> ys ! nat j = PNone)" if vn: "v = PNone"
      using assign_last_null_read a' vn by blast
    from n' c e show ?thesis by blast
  qed
  from 1 nf 2 7 3 4 5 6 vl 8 show ?thesis by blast
qed

theorem C3_set_in_flag_witness:
  "set_in (PDict [(KStr ''marker'', PDict [(KStr ''color'', PStr ''red'')])])
      ''marker.color'' (PStr ''blue'')
     = (PDict [(KStr ''marker'', PDict [(KStr ''color'', PStr ''blue'')])], Inr True) \<and>
   set_in (PDict [(KStr ''marker'', PDict [(KStr ''color'', PStr ''blue'')])])
      ''marker.color'' (PStr ''blue'')
     = (PDict [(KStr ''marker'', PDict [(KStr ''color'', PStr ''blue'')])], Inr False) \<and>
   PDict [(KStr ''marker'', PDict [(KStr ''color'', PStr ''blue'')])]
     \<noteq> PDict [(KStr ''marker'', PDict [(KStr ''color'', PStr ''red'')])]"
proof -
  have a: "set_in (PDict [(KStr ''marker'', PDict [(KStr ''color'', PStr ''red'')])])
      ''marker.color'' (PStr ''blue'')
     = (PDict [(KStr ''marker'', PDict [(KStr ''color'', PStr ''blue'')])], Inr True)"
    by code_simp
  have n: "nan_free (PStr ''blue'')" by simp
  from C3_set_in_flag [OF a] a n show ?thesis by simp
qed

section \<open>Writing the Undefined sentinel\<close>

lemma set_in_Undefined_flag: "snd (set_in d s Undefined) \<noteq> Inr True"
proof (cases d)
  case (PDict m)
  obtain d' r where x: "set_in_at d (str_to_dict_path s) Undefined = (d', r)"
    by (cases "set_in_at d (str_to_dict_path s) Undefined")
  from set_in_at_Undefined [OF x] x PDict show ?thesis by (simp add: set_in_def)
qed (simp_all add: set_in_def)

lemma str_to_dict_path_nonempty: "str_to_dict_path s \<noteq> []"
proof -
  have "split_dot s \<noteq> []" by (induction s) (auto split: list.splits)
  then obtain x xs where "split_dot s = x # xs" by (cases "split_dot s") auto
  moreover have "split_bracket x \<noteq> []"
    by (auto simp: split_bracket_def split: option.splits)
  ultimately show ?thesis by (simp add: str_to_dict_path_def)
qed

lemma set_in_at_Undefined_noop:
  assumes "navigate vp (butlast p) = Inr parent" "p \<noteq> []"
  shows "set_in_at vp p Undefined = (vp, Inr False)"
proof -
  obtain vp' r where x: "set_in_at vp p Undefined = (vp', r)"
    by (cases "set_in_at vp p Undefined")
  have "r = snd (assign_last parent (last p) Undefined)"
    using set_in_at_navigate [OF assms, of Undefined] x by simp
  then have r: "r = Inr False" by (simp add: assign_last_def)
  with x set_in_at_False_same [OF _ assms(1)] have "vp' = vp" by blast
  with x r show ?thesis by simp
qed

lemma restyle_traces_Undefined:
  "\<exists>r. restyle_traces og fig k Undefined i idxs any = (fig, r) \<and>
       (r = Inr any \<or> (\<exists>t. r = Inl (ValueError (TraceIndexOutOfRange t))))"
  by (induction idxs arbitrary: i) (auto simp: select_value_def)

lemma plotly_restyle_Undefined_events:
  "fst (snd (plotly_restyle og fig [(k, Undefined)] ti)) = [] \<and>
   fst (plotly_restyle og fig [(k, Undefined)] ti) = fig"
proof -
  obtain r where r: "restyle_traces og fig k Undefined 0 (normalize_trace_indexes fig ti) False = (fig, r)"
    "r = Inr False \<or> (\<exists>t. r = Inl (ValueError (TraceIndexOutOfRange t)))"
    using restyle_traces_Undefined [of og fig k 0 "normalize_trace_indexes fig ti" False] by blast
  then show ?thesis
    by (auto simp: plotly_restyle_def perform_plotly_restyle_def Let_def)
qed

lemma plotly_relayout_Undefined_events:
  "fst (snd (plotly_relayout og fig [(k, Undefined)])) = []"
proof -
  obtain l' r where x: "set_in (layout fig) k Undefined = (l', r)"
    by (cases "set_in (layout fig) k Undefined")
  with set_in_Undefined_flag [of "layout fig" k] have "r \<noteq> Inr True" by simp
  with x show ?thesis
    by (auto simp: plotly_relayout_def perform_plotly_relayout_def split: sum.splits)
qed

text \<open>
  C7, as stated: a write of \<^verbatim>\<open>Undefined\<close> through \<^verbatim>\<open>_set_in\<close> at any path leaves the
  dict unchanged. At the path \<^verbatim>\<open>'a.b'\<close> the empty dict gets an empty dict under
  \<^verbatim>\<open>'a'\<close> before the value is looked at.
\<close>

theorem C7_undefined_creates_counterexample:
  "set_in (PDict []) ''a.b'' Undefined = (PDict [(KStr ''a'', PDict [])], Inr False) \<and>
   PDict [(KStr ''a'', PDict [])] \<noteq> PDict []"
  by code_simp

text \<open>
  C7, amended: a scalar property assignment (\<^verbatim>\<open>_set_prop\<close>) of \<^verbatim>\<open>Undefined\<close> leaves
  the figure as it is, sends no message and calls no callback. \<^verbatim>\<open>_set_in\<close> with
  \<^verbatim>\<open>Undefined\<close> never reports a change, and leaves the dict as it is whenever every
  container before the last key of the path already exists (as for every path of one
  key). A restyle of \<^verbatim>\<open>Undefined\<close> leaves the figure as it is, and neither a restyle nor
  a relayout of \<^verbatim>\<open>Undefined\<close> sends a message or calls a callback.
\<close>

theorem C7_undefined_write:
  "set_prop og fig h self prop Undefined = (fig, [], None) \<and>
   snd (set_in d key_path_str Undefined) \<noteq> Inr True \<and>
   (navigate (PDict m) (butlast (str_to_dict_path key_path_str)) = Inr parent \<longrightarrow>
      set_in (PDict m) key_path_str Undefined = (PDict m, Inr False)) \<and>
   fst (plotly_restyle og fig [(key_path_str, Undefined)] trace_indexes) = fig \<and>
   fst (snd (plotly_restyle og fig [(key_path_str, Undefined)] trace_indexes)) = [] \<and>
   fst (snd (plotly_relayout og fig [(key_path_str, Undefined)])) = []"
  using set_in_Undefined_flag [of d key_path_str]
    set_in_at_Undefined_noop [OF _ str_to_dict_path_nonempty, of "PDict m" key_path_str parent]
    plotly_restyle_Undefined_events [of og fig key_path_str trace_indexes]
    plotly_relayout_Undefined_events [of og fig key_path_str]
  by (simp add: set_prop_def set_in_def)

theorem C7_undefined_write_witness:
  "navigate (PDict [(KStr ''marker'', PDict [(KStr ''color'', PStr ''red'')])])
     (butlast (str_to_dict_path ''marker.color'')) = Inr (PDict [(KStr ''color'', PStr ''red'')]) \<and>
   set_in (PDict [(KStr ''marker'', PDict [(KStr ''color'', PStr ''red'')])])
     ''marker.color'' Undefined
     = (PDict [(KStr ''marker'', PDict [(KStr ''color'', PStr ''red'')])], Inr False)"
proof -
  have n: "navigate (PDict [(KStr ''marker'', PDict [(KStr ''color'', PStr ''red'')])])
     (butlast (str_to_dict_path ''marker.color'')) = Inr (PDict [(KStr ''color'', PStr ''red'')])"
    by code_simp
  from C7_undefined_write [where m = "[(KStr ''marker'', PDict [(KStr ''color'', PStr ''red'')])]"
      and key_path_str = "''marker.color''" and parent = "PDict [(KStr ''color'', PStr ''red'')]"] n
  show ?thesis by blast
qed

section \<open>Restyle: the loop over the trace indexes\<close>

lemma restyle_traces_step:
  "restyle_traces og fig k v i (t # ts) any =
     (case restyle_traces og fig k v i [t] any of
        (f1, Inl e) \<Rightarrow> (f1, Inl e)
      | (f1, Inr a) \<Rightarrow> restyle_traces og f1 k v (Suc i) ts a)"
  by (auto simp: Let_def split: if_splits sum.splits prod.splits)

lemma restyle_traces_single_length:
  "restyle_traces og fig k v i [t] any = (f1, r1) \<Longrightarrow> length (data f1) = length (data fig)"
  by (auto simp: Let_def split: if_splits sum.splits prod.splits)

lemma restyle_traces_length:
  "restyle_traces og fig k v i idxs any = (fig', r) \<Longrightarrow> length (data fig') = length (data fig)"
proof (induction idxs arbitrary: fig i any)
  case Nil
  then show ?case by simp
next
  case (Cons t ts)
  obtain f1 r1 where p: "restyle_traces og fig k v i [t] any = (f1, r1)"
    by (cases "restyle_traces og fig k v i [t] any")
  have l1: "length (data f1) = length (data fig)"
    using p by (rule restyle_traces_single_length)
  have s: "restyle_traces og fig k v i (t # ts) any =
     (case restyle_traces og fig k v i [t] any of
        (f1, Inl e) \<Rightarrow> (f1, Inl e)
      | (f1, Inr a) \<Rightarrow> restyle_traces og f1 k v (Suc i) ts a)"
    by (rule restyle_traces_step)
  show ?case
  proof (cases r1)
    case (Inl e)
    with p Cons.prems have "fig' = f1" unfolding s by (simp del: restyle_traces.simps)
    with l1 show ?thesis by simp
  next
    case (Inr a)
    with p Cons.prems have "restyle_traces og f1 k v (Suc i) ts a = (fig', r)"
      unfolding s by (simp del: restyle_traces.simps)
    from Cons.IH [OF this] l1 show ?thesis by simp
  qed
qed

lemma restyle_traces_append:
  "restyle_traces og fig k v i (pre @ rest) any =
     (case restyle_traces og fig k v i pre any of
        (f1, Inl e) \<Rightarrow> (f1, Inl e)
      | (f1, Inr a) \<Rightarrow> restyle_traces og f1 k v (i + length pre) rest a)"
proof (induction pre arbitrary: fig i any)
  case Nil
  then show ?case by simp
next
  case (Cons t ts)
  have l: "restyle_traces og fig k v i ((t # ts) @ rest) any =
     (case restyle_traces og fig k v i [t] any of
        (f1, Inl e) \<Rightarrow> (f1, Inl e)
      | (f1, Inr a) \<Rightarrow> restyle_traces og f1 k v (Suc i) (ts @ rest) a)"
    by (simp only: append_Cons restyle_traces_step [of og fig k v i t "ts @ rest"])
  have r: "restyle_traces og fig k v i (t # ts) any =
     (case restyle_traces og fig k v i [t] any of
        (f1, Inl e) \<Rightarrow> (f1, Inl e)
      | (f1, Inr a) \<Rightarrow> restyle_traces og f1 k v (Suc i) ts a)"
    by (rule restyle_traces_step)
  have n: "i + length (t # ts) = Suc i + length ts" by simp
  show ?case
  proof (cases "restyle_traces og fig k v i [t] any")
    case (Pair f1 r1)
    show ?thesis
    proof (cases r1)
      case (Inl e)
      with Pair show ?thesis unfolding l r by (simp del: restyle_traces.simps)
    next
      case (Inr a)
      with Pair Cons.IH [of f1 "Suc i" a] show ?thesis
        unfolding l r n by (simp del: restyle_traces.simps)
    qed
  qed
qed

lemma restyle_traces_bad_head:
  "int (length (data fig)) \<le> bad \<Longrightarrow>
   restyle_traces og fig k v i (bad # post) any = (fig, Inl (ValueError (TraceIndexOutOfRange bad)))"
  by simp

lemma restyle_traces_reaches_bad:
  assumes "int (length (data fig)) \<le> bad"
    and "restyle_traces og fig k v i pre any = (fig1, Inr a)"
  shows "restyle_traces og fig k v i (pre @ bad # post) any
           = (fig1, Inl (ValueError (TraceIndexOutOfRange bad)))"
proof -
  have "length (data fig1) = length (data fig)" using assms(2) by (rule restyle_traces_length)
  with assms(1) have "int (length (data fig1)) \<le> bad" by simp
  then show ?thesis
    using assms(2) by (simp add: restyle_traces_append)
qed

lemma restyle_traces_has_bad:
  assumes "\<exists>t \<in> set idxs. int (length (data fig)) \<le> t"
  shows "\<exists>fig' e. restyle_traces og fig k v i idxs any = (fig', Inl e)"
proof -
  from assms obtain t where t: "t \<in> set idxs" "int (length (data fig)) \<le> t" by blast
  then obtain pre post where s: "idxs = pre @ t # post" by (meson split_list)
  obtain f1 r1 where p: "restyle_traces og fig k v i pre any = (f1, r1)"
    by (cases "restyle_traces og fig k v i pre any")
  show ?thesis
  proof (cases r1)
    case (Inl e)
    with p s show ?thesis by (simp add: restyle_traces_append)
  next
    case (Inr a)
    with p restyle_traces_reaches_bad [OF t(2), of og k v i pre any f1 a post] s
    show ?thesis by simp
  qed
qed

lemma restyle_traces_Undefined_in_range:
  "\<forall>t \<in> set idxs. t < int (length (data fig)) \<Longrightarrow>
   restyle_traces og fig k Undefined i idxs any = (fig, Inr any)"
  by (induction idxs arbitrary: i) (auto simp: select_value_def)

text \<open>
  C10: in \<^verbatim>\<open>plotly_restyle\<close> with a non-empty edit dict, a trace index that is not below
  the number of traces raises \<^verbatim>\<open>ValueError\<close> (trace index out of range) when the loop
  of the first key reaches it, also when the value for that position is
  \<^verbatim>\<open>Undefined\<close>; the figure is then as the writes for the indexes before it left it,
  no message is sent, and the call never returns normally. The index is always reached
  under the first key, so no later key has been applied by then.
\<close>

theorem C10_trace_index_out_of_range:
  assumes "int (length (data fig)) \<le> bad"
  shows "(restyle_traces og fig k v 0 pre False = (fig', Inr a) \<longrightarrow>
            perform_plotly_restyle og fig ((k, v) # rest) (pre @ bad # post)
              = (fig', Inl (ValueError (TraceIndexOutOfRange bad))) \<and>
            plotly_restyle og fig ((k, v) # rest) (TraceList (pre @ bad # post))
              = (fig', [], Some (ValueError (TraceIndexOutOfRange bad)))) \<and>
         ((\<forall>t \<in> set pre. t < int (length (data fig))) \<longrightarrow>
            plotly_restyle og fig ((k, Undefined) # rest) (TraceList (pre @ bad # post))
              = (fig, [], Some (ValueError (TraceIndexOutOfRange bad)))) \<and>
         (\<exists>figx e. perform_plotly_restyle og fig ((k, v) # rest) (pre @ bad # post)
              = (figx, Inl e))"
proof -
  have 1: "perform_plotly_restyle og fig ((k, v) # rest) (pre @ bad # post)
              = (fig', Inl (ValueError (TraceIndexOutOfRange bad))) \<and>
            plotly_restyle og fig ((k, v) # rest) (TraceList (pre @ bad # post))
              = (fig', [], Some (ValueError (TraceIndexOutOfRange bad)))"
    if "restyle_traces og fig k v 0 pre False = (fig', Inr a)"
    using restyle_traces_reaches_bad [OF assms that, of post]
    by (simp add: perform_plotly_restyle_def plotly_restyle_def normalize_trace_indexes_def)
  have 2: "plotly_restyle og fig ((k, Undefined) # rest) (TraceList (pre @ bad # post))
              = (fig, [], Some (ValueError (TraceIndexOutOfRange bad)))"
    if "\<forall>t \<in> set pre. t < int (length (data fig))"
    using restyle_traces_reaches_bad [OF assms
        restyle_traces_Undefined_in_range [OF that, of og k 0 False], of post]
    by (simp add: perform_plotly_restyle_def plotly_restyle_def normalize_trace_indexes_def)
  have "\<exists>t \<in> set (pre @ bad # post). int (length (data fig)) \<le> t" using assms by auto
  from restyle_traces_has_bad [OF this, of og k v 0 False]
  have 3: "\<exists>figx e. perform_plotly_restyle og fig ((k, v) # rest) (pre @ bad # post)
              = (figx, Inl e)"
    by (auto simp: perform_plotly_restyle_def)
  from 1 2 3 show ?thesis by blast
qed


theorem C10_trace_index_out_of_range_witness:
  "int (length (data example_figure)) \<le> 5 \<and>
   restyle_traces example_objects example_figure ''a'' (PInt 1) 0 [0] False
     = (example_figure\<lparr>data := [PDict [(KStr ''uid'', PStr ''u0''), (KStr ''a'', PInt 1)],
                                 PDict [(KStr ''uid'', PStr ''u1'')]]\<rparr>, Inr True) \<and>
   plotly_restyle example_objects example_figure [(''a'', PInt 1)] (TraceList [0, 5])
     = (example_figure\<lparr>data := [PDict [(KStr ''uid'', PStr ''u0''), (KStr ''a'', PInt 1)],
                                 PDict [(KStr ''uid'', PStr ''u1'')]]\<rparr>,
        [], Some (ValueError (TraceIndexOutOfRange 5))) \<and>
   plotly_restyle example_objects example_figure [(''a'', Undefined)] (TraceList [0, 5])
     = (example_figure, [], Some (ValueError (TraceIndexOutOfRange 5)))"
proof -
  have h: "int (length (data example_figure)) \<le> 5" by (simp add: example_figure_def)
  have p: "restyle_traces example_objects example_figure ''a'' (PInt 1) 0 [0] False
     = (example_figure\<lparr>data := [PDict [(KStr ''uid'', PStr ''u0''), (KStr ''a'', PInt 1)],
                                 PDict [(KStr ''uid'', PStr ''u1'')]]\<rparr>, Inr True)"
    by code_simp
  have q: "\<forall>t \<in> set [0::int]. t < int (length (data example_figure))"
    by (simp add: example_figure_def)
  from C10_trace_index_out_of_range [where fig = example_figure and bad = 5
      and og = example_objects and k = "''a''"
      and v = "PInt 1" and pre = "[0]" and post = "[]" and rest = "[]"
      and a = True and
      fig' = "example_figure\<lparr>data := [PDict [(KStr ''uid'', PStr ''u0''), (KStr ''a'', PInt 1)],
                                 PDict [(KStr ''uid'', PStr ''u1'')]]\<rparr>"] h p q
  show ?thesis by simp
qed

section \<open>Restyle: which value goes to which trace, and the changes returned\<close>
















section \<open>The order of writes, message and callbacks\<close>

lemma run_all_callbacks:
  assumes "\<And>x evs r. x \<in> set xs \<Longrightarrow> f x = (evs, r) \<Longrightarrow> list_all is_callback evs"
  shows "list_all is_callback (fst (run_all f xs))"
  using assms
proof (induction xs)
  case Nil
  then show ?case by simp
next
  case (Cons x xs)
  obtain evs r where fx: "f x = (evs, r)" by (cases "f x")
  have a: "list_all is_callback evs" using Cons.prems [of x evs r] fx by simp
  have b: "list_all is_callback (fst (run_all f xs))"
    using Cons.IH Cons.prems by auto
  show ?case using fx a b by (cases r) (auto split: prod.splits)
qed

lemma dispatch_change_callbacks_callbacks:
  "list_all is_callback (fst (dispatch_change_callbacks gi regs self changed))"
  unfolding dispatch_change_callbacks_def
  by (rule run_all_callbacks) (auto simp: list_all_iff split: if_splits sum.splits)

lemma dispatch_obj_callbacks:
  "list_all is_callback (fst (dispatch_obj og fig obj path changed))"
  using dispatch_change_callbacks_callbacks
  by (auto simp: dispatch_obj_def split: sum.splits item.splits)

lemma dispatch_layout_callbacks:
  "list_all is_callback (fst (dispatch_layout_change_callbacks og fig changes))"
  unfolding dispatch_layout_change_callbacks_def
proof (rule run_all_callbacks)
  fix x evs r
  assume "(case x of (path_tuple, changed_paths) \<Rightarrow>
             dispatch_obj og fig (layout_obj fig) path_tuple changed_paths) = (evs, r)"
  then show "list_all is_callback evs"
    using dispatch_obj_callbacks [of og fig "layout_obj fig" "fst x" "snd x"]
    by (cases x) auto
qed

lemma dispatch_trace_callbacks:
  "list_all is_callback (fst (dispatch_trace_change_callbacks og fig changes idxs))"
  unfolding dispatch_trace_change_callbacks_def
proof (rule run_all_callbacks)
  fix x evs r
  assume a: "(case x of (path_tuple, changed_paths) \<Rightarrow>
       run_all (\<lambda>trace_ind. case py_index (data_objs fig) trace_ind of
                   Inl e \<Rightarrow> ([], Some e)
                 | Inr trace \<Rightarrow> dispatch_obj og fig (obj_id trace) path_tuple changed_paths)
         idxs) = (evs, r)"
  obtain p c where x: "x = (p, c)" by (cases x)
  have "list_all is_callback (fst (run_all (\<lambda>trace_ind. case py_index (data_objs fig) trace_ind of
                   Inl e \<Rightarrow> ([], Some e)
                 | Inr trace \<Rightarrow> dispatch_obj og fig (obj_id trace) p c) idxs))"
  proof (rule run_all_callbacks)
    fix t evs' r'
    assume "(case py_index (data_objs fig) t of Inl e \<Rightarrow> ([], Some e)
               | Inr trace \<Rightarrow> dispatch_obj og fig (obj_id trace) p c) = (evs', r')"
    then show "list_all is_callback evs'"
      using dispatch_obj_callbacks [of og fig _ p c]
      by (auto split: sum.splits) (metis fst_conv)
  qed
  with a x show "list_all is_callback evs" by simp
qed

lemma dispatch_trace_callbacks_pair:
  "dispatch_trace_change_callbacks og fig changes idxs = (evs, r) \<Longrightarrow> list_all is_callback evs"
  using dispatch_trace_callbacks [of og fig changes idxs] by simp

lemma dispatch_layout_callbacks_pair:
  "dispatch_layout_change_callbacks og fig changes = (evs, r) \<Longrightarrow> list_all is_callback evs"
  using dispatch_layout_callbacks [of og fig changes] by simp

lemma plotly_update_outcome:
  assumes u: "plotly_update og fig restyle_arg relayout_arg trace_indexes = (fig', evs, r)"
  shows "\<exists>res. perform_plotly_update og fig restyle_arg relayout_arg trace_indexes = (fig', res) \<and>
         (case res of
            Inl e \<Rightarrow> evs = [] \<and> r = Some e
          | Inr None \<Rightarrow> evs = [] \<and> r = None
          | Inr (Some (restyle_changes, relayout_changes, idxs)) \<Rightarrow>
              (restyle_changes = [] \<and> relayout_changes = [] \<longrightarrow> evs = [] \<and> r = None) \<and>
              (restyle_changes \<noteq> [] \<or> relayout_changes \<noteq> [] \<longrightarrow>
                 hd evs = UpdateMsg restyle_changes relayout_changes idxs \<and> evs \<noteq> [] \<and>
                 list_all is_callback (tl evs)))"
proof -
  obtain f1 res where p: "perform_plotly_update og fig restyle_arg relayout_arg trace_indexes
      = (f1, res)"
    by (cases "perform_plotly_update og fig restyle_arg relayout_arg trace_indexes")
  show ?thesis
  proof (cases res)
    case (Inl e)
    with p u show ?thesis by (simp add: plotly_update_def)
  next
    case (Inr opt)
    show ?thesis
    proof (cases opt)
      case None
      with Inr p u show ?thesis by (simp add: plotly_update_def)
    next
      case (Some t)
      obtain rc lc idxs where t: "t = (rc, lc, idxs)" by (cases t)
      obtain e1 r1 where d1: "(if rc \<noteq> [] then dispatch_trace_change_callbacks og f1 rc idxs
                           else ([], None)) = (e1, r1)"
        by (cases "if rc \<noteq> [] then dispatch_trace_change_callbacks og f1 rc idxs else ([], None)")
      obtain e2 r2 where d2: "(if lc \<noteq> [] then dispatch_layout_change_callbacks og f1 lc
                           else ([], None)) = (e2, r2)"
        by (cases "if lc \<noteq> [] then dispatch_layout_change_callbacks og f1 lc else ([], None)")
      have c1: "list_all is_callback e1"
        using d1 dispatch_trace_callbacks [of og f1 rc idxs] by (auto split: if_splits)
      have c2: "list_all is_callback e2"
        using d2 dispatch_layout_callbacks [of og f1 lc] by (auto split: if_splits)
      have n1: "rc = [] \<Longrightarrow> e1 = [] \<and> r1 = None" using d1 by simp
      have n2: "lc = [] \<Longrightarrow> e2 = [] \<and> r2 = None" using d2 by simp
      note os = Some
      let ?msg = "if rc \<noteq> [] \<or> lc \<noteq> [] then [UpdateMsg rc lc idxs] else []"
      show ?thesis
      proof (cases r1)
        case None
        from u p Inr os t d1 d2 None have
          f: "fig' = f1" and ev: "evs = ?msg @ e1 @ e2" and rr: "r = r2"
          by (simp_all add: plotly_update_def Let_def)
        from ev c1 c2 n1 n2 rr have
          "(rc = [] \<and> lc = [] \<longrightarrow> evs = [] \<and> r = None) \<and>
           (rc \<noteq> [] \<or> lc \<noteq> [] \<longrightarrow>
               hd evs = UpdateMsg rc lc idxs \<and> evs \<noteq> [] \<and> list_all is_callback (tl evs))"
          by auto
        with p Inr os t f show ?thesis by simp
      next
        case (Some e)
        from u p Inr os t d1 d2 Some have
          f: "fig' = f1" and ev: "evs = ?msg @ e1" and rr: "r = Some e"
          by (simp_all add: plotly_update_def Let_def)
        from Some n1 have "rc \<noteq> []" by auto
        with ev c1 have
          "(rc = [] \<and> lc = [] \<longrightarrow> evs = [] \<and> r = None) \<and>
           (rc \<noteq> [] \<or> lc \<noteq> [] \<longrightarrow>
               hd evs = UpdateMsg rc lc idxs \<and> evs \<noteq> [] \<and> list_all is_callback (tl evs))"
          by auto
        with p Inr os t f show ?thesis by simp
      qed
    qed
  qed
qed

lemma plotly_update_exact:
  assumes u: "plotly_update og fig restyle_arg relayout_arg trace_indexes = (fig', evs, r)"
    and p: "perform_plotly_update og fig restyle_arg relayout_arg trace_indexes
              = (fig', Inr (Some (restyle_changes, relayout_changes, idxs)))"
    and c: "restyle_changes \<noteq> [] \<or> relayout_changes \<noteq> []"
  shows "evs = UpdateMsg restyle_changes relayout_changes idxs #
           (if restyle_changes \<noteq> []
            then fst (dispatch_trace_change_callbacks og fig' restyle_changes idxs) else []) @
           (if relayout_changes \<noteq> [] \<and>
               (restyle_changes = [] \<or>
                snd (dispatch_trace_change_callbacks og fig' restyle_changes idxs) = None)
            then fst (dispatch_layout_change_callbacks og fig' relayout_changes) else [])"
proof -
  obtain e1 r1 where d1: "dispatch_trace_change_callbacks og fig' restyle_changes idxs = (e1, r1)"
    by (cases "dispatch_trace_change_callbacks og fig' restyle_changes idxs")
  obtain e2 r2 where d2: "dispatch_layout_change_callbacks og fig' relayout_changes = (e2, r2)"
    by (cases "dispatch_layout_change_callbacks og fig' relayout_changes")
  from u p c d1 d2 show ?thesis
    by (cases r1) (auto simp: plotly_update_def Let_def split: if_splits)
qed

text \<open>
  C1, as stated: the change observers are notified before the sync message is emitted.
  In a relayout of \<^verbatim>\<open>'a'\<close> on the example figure the relayout message comes first
  and the call of the callback registered for \<^verbatim>\<open>'a'\<close> second.
\<close>

theorem C1_message_before_callbacks_counterexample:
  "plotly_relayout example_objects example_figure [(''a'', PInt 1)]
     = (example_figure\<lparr>layout := PDict [(KStr ''a'', PInt 1)]\<rparr>,
        [RelayoutMsg [(''a'', PInt 1)], CallbackCall 1 7 [ItemValue (PInt 1)]], None) \<and>
   change_callbacks example_objects 7 = [([[KStr ''a'']], [1]), ([[KStr ''b'']], [1])]"
  by code_simp

text \<open>
  C1, amended: \<^verbatim>\<open>plotly_restyle\<close>, \<^verbatim>\<open>plotly_relayout\<close> and \<^verbatim>\<open>plotly_update\<close> first
  compute the changes, writing each one into the figure's dicts as it is found; the
  figure of the outcome is the one that this step left, also when it raised. If the
  changes are not empty the sync message with the changes is emitted next, and the
  registered change callbacks are called after it, dispatched on the figure after the
  writes; nothing but callback calls follows the message. After the message of an update
  come the calls that the dispatch for the traces makes for the restyle changes, if there
  are any, and then, unless that dispatch raised, the calls that the dispatch for the
  layout makes for the relayout changes, if there are any. If the changes are empty (or
  the first step raised) there is neither message nor callback.
\<close>

theorem C1_apply_then_message_then_callbacks:
  "(plotly_restyle og fig restyle_data trace_indexes = (fig', evs, r) \<longrightarrow>
      (\<exists>res. perform_plotly_restyle og fig restyle_data
                (normalize_trace_indexes fig trace_indexes) = (fig', res) \<and>
         (case res of
            Inl e \<Rightarrow> evs = [] \<and> r = Some e
          | Inr changes \<Rightarrow>
              (changes = [] \<longrightarrow> evs = [] \<and> r = None) \<and>
              (changes \<noteq> [] \<longrightarrow>
                 evs = RestyleMsg changes (TraceList (normalize_trace_indexes fig trace_indexes))
                       # fst (dispatch_trace_change_callbacks og fig' changes
                               (normalize_trace_indexes fig trace_indexes)) \<and>
                 list_all is_callback (tl evs))))) \<and>
   (plotly_relayout og fig relayout_data = (fig', evs, r) \<longrightarrow>
      (\<exists>res. perform_plotly_relayout og fig relayout_data = (fig', res) \<and>
         (case res of
            Inl e \<Rightarrow> evs = [] \<and> r = Some e
          | Inr changes \<Rightarrow>
              (changes = [] \<longrightarrow> evs = [] \<and> r = None) \<and>
              (changes \<noteq> [] \<longrightarrow>
                 evs = RelayoutMsg changes
                       # fst (dispatch_layout_change_callbacks og fig' changes) \<and>
                 list_all is_callback (tl evs))))) \<and>
   (plotly_update og fig restyle_arg relayout_arg trace_indexes = (fig', evs, r) \<longrightarrow>
      (\<exists>res. perform_plotly_update og fig restyle_arg relayout_arg trace_indexes = (fig', res) \<and>
         (case res of
            Inl e \<Rightarrow> evs = [] \<and> r = Some e
          | Inr None \<Rightarrow> evs = [] \<and> r = None
          | Inr (Some (restyle_changes, relayout_changes, idxs)) \<Rightarrow>
              (restyle_changes = [] \<and> relayout_changes = [] \<longrightarrow> evs = [] \<and> r = None) \<and>
              (restyle_changes \<noteq> [] \<or> relayout_changes \<noteq> [] \<longrightarrow>
                 evs = UpdateMsg restyle_changes relayout_changes idxs #
                   (if restyle_changes \<noteq> []
                    then fst (dispatch_trace_change_callbacks og fig' restyle_changes idxs)
                    else []) @
                   (if relayout_changes \<noteq> [] \<and>
                       (restyle_changes = [] \<or>
                        snd (dispatch_trace_change_callbacks og fig' restyle_changes idxs) = None)
                    then fst (dispatch_layout_change_callbacks og fig' relayout_changes)
                    else []) \<and>
                 list_all is_callback (tl evs)))))"
proof -
  have 1: "\<exists>res. perform_plotly_restyle og fig restyle_data
                (normalize_trace_indexes fig trace_indexes) = (fig', res) \<and>
         (case res of
            Inl e \<Rightarrow> evs = [] \<and> r = Some e
          | Inr changes \<Rightarrow>
              (changes = [] \<longrightarrow> evs = [] \<and> r = None) \<and>
              (changes \<noteq> [] \<longrightarrow>
                 evs = RestyleMsg changes (TraceList (normalize_trace_indexes fig trace_indexes))
                       # fst (dispatch_trace_change_callbacks og fig' changes
                               (normalize_trace_indexes fig trace_indexes)) \<and>
                 list_all is_callback (tl evs)))"
    if "plotly_restyle og fig restyle_data trace_indexes = (fig', evs, r)"
    using that
    by (auto simp: plotly_restyle_def Let_def split: prod.splits sum.splits if_splits
        dest: dispatch_trace_callbacks_pair)
  have 2: "\<exists>res. perform_plotly_relayout og fig relayout_data = (fig', res) \<and>
         (case res of
            Inl e \<Rightarrow> evs = [] \<and> r = Some e
          | Inr changes \<Rightarrow>
              (changes = [] \<longrightarrow> evs = [] \<and> r = None) \<and>
              (changes \<noteq> [] \<longrightarrow>
                 evs = RelayoutMsg changes
                       # fst (dispatch_layout_change_callbacks og fig' changes) \<and>
                 list_all is_callback (tl evs)))"
    if "plotly_relayout og fig relayout_data = (fig', evs, r)"
    using that
    by (auto simp: plotly_relayout_def Let_def split: prod.splits sum.splits if_splits
        dest: dispatch_layout_callbacks_pair)
  have 3: "\<exists>res. perform_plotly_update og fig restyle_arg relayout_arg trace_indexes = (fig', res) \<and>
         (case res of
            Inl e \<Rightarrow> evs = [] \<and> r = Some e
          | Inr None \<Rightarrow> evs = [] \<and> r = None
          | Inr (Some (restyle_changes, relayout_changes, idxs)) \<Rightarrow>
              (restyle_changes = [] \<and> relayout_changes = [] \<longrightarrow> evs = [] \<and> r = None) \<and>
              (restyle_changes \<noteq> [] \<or> relayout_changes \<noteq> [] \<longrightarrow>
                 evs = UpdateMsg restyle_changes relayout_changes idxs #
                   (if restyle_changes \<noteq> []
                    then fst (dispatch_trace_change_callbacks og fig' restyle_changes idxs)
                    else []) @
                   (if relayout_changes \<noteq> [] \<and>
                       (restyle_changes = [] \<or>
                        snd (dispatch_trace_change_callbacks og fig' restyle_changes idxs) = None)
                    then fst (dispatch_layout_change_callbacks og fig' relayout_changes)
                    else []) \<and>
                 list_all is_callback (tl evs)))"
    if u: "plotly_update og fig restyle_arg relayout_arg trace_indexes = (fig', evs, r)"
  proof -
    from plotly_update_outcome [OF u] obtain res where
      p: "perform_plotly_update og fig restyle_arg relayout_arg trace_indexes = (fig', res)"
      and o: "case res of
            Inl e \<Rightarrow> evs = [] \<and> r = Some e
          | Inr None \<Rightarrow> evs = [] \<and> r = None
          | Inr (Some (restyle_changes, relayout_changes, idxs)) \<Rightarrow>
              (restyle_changes = [] \<and> relayout_changes = [] \<longrightarrow> evs = [] \<and> r = None) \<and>
              (restyle_changes \<noteq> [] \<or> relayout_changes \<noteq> [] \<longrightarrow>
                 hd evs = UpdateMsg restyle_changes relayout_changes idxs \<and> evs \<noteq> [] \<and>
                 list_all is_callback (tl evs))"
      by blast
    show ?thesis
    proof (cases res)
      case (Inl e)
      with p o show ?thesis by simp
    next
      case (Inr opt)
      show ?thesis
      proof (cases opt)
        case None
        with Inr p o show ?thesis by simp
      next
        case (Some t)
        obtain rc lc idxs where t: "t = (rc, lc, idxs)" by (cases t)
        note x = plotly_update_exact [OF u p [unfolded Inr Some t]]
        from Inr Some t p o x show ?thesis by auto
      qed
    qed
  qed
  from 1 2 3 show ?thesis by blast
qed


theorem C1_apply_then_message_then_callbacks_witness:
  "plotly_relayout example_objects example_figure [(''a'', PInt 1)]
     = (example_figure\<lparr>layout := PDict [(KStr ''a'', PInt 1)]\<rparr>,
        [RelayoutMsg [(''a'', PInt 1)], CallbackCall 1 7 [ItemValue (PInt 1)]], None) \<and>
   perform_plotly_relayout example_objects example_figure [(''a'', PInt 1)]
     = (example_figure\<lparr>layout := PDict [(KStr ''a'', PInt 1)]\<rparr>, Inr [(''a'', PInt 1)]) \<and>
   fst (dispatch_layout_change_callbacks example_objects
          (example_figure\<lparr>layout := PDict [(KStr ''a'', PInt 1)]\<rparr>) [(''a'', PInt 1)])
     = [CallbackCall 1 7 [ItemValue (PInt 1)]]"
proof -
  let ?F = "example_figure\<lparr>layout := PDict [(KStr ''a'', PInt 1)]\<rparr>"
  let ?evs = "[RelayoutMsg [(''a'', PInt 1)], CallbackCall 1 7 [ItemValue (PInt 1)]]"
  have a: "plotly_relayout example_objects example_figure [(''a'', PInt 1)] = (?F, ?evs, None)"
    by code_simp
  from C1_apply_then_message_then_callbacks [where og = example_objects
      and fig = example_figure and relayout_data = "[(''a'', PInt 1)]" and fig' = ?F
      and evs = ?evs and r = None, THEN conjunct2, THEN conjunct1, rule_format, OF a]
  have "perform_plotly_relayout example_objects example_figure [(''a'', PInt 1)]
     = (?F, Inr [(''a'', PInt 1)]) \<and>
      fst (dispatch_layout_change_callbacks example_objects ?F [(''a'', PInt 1)])
        = [CallbackCall 1 7 [ItemValue (PInt 1)]]"
    by (elim exE, case_tac res) (auto split: if_splits)
  with a show ?thesis by simp
qed

section \<open>Batch mode\<close>

subsection \<open>Restyle, relayout and update write to the data and the layout only\<close>

lemma restyle_traces_frame:
  "restyle_traces og fig k v i idxs any = (fig', r) \<Longrightarrow>
   same_but_data fig fig' \<and> layout fig' = layout fig"
proof (induction idxs arbitrary: fig i any)
  case Nil
  then show ?case by (simp add: same_but_data_def)
next
  case (Cons t ts)
  obtain f1 r1 where p: "restyle_traces og fig k v i [t] any = (f1, r1)"
    by (cases "restyle_traces og fig k v i [t] any")
  have l1: "same_but_data fig f1 \<and> layout f1 = layout fig"
    using p by (auto simp: Let_def same_but_data_def split: if_splits sum.splits prod.splits)
  have s: "restyle_traces og fig k v i (t # ts) any =
     (case restyle_traces og fig k v i [t] any of
        (f1, Inl e) \<Rightarrow> (f1, Inl e)
      | (f1, Inr a) \<Rightarrow> restyle_traces og f1 k v (Suc i) ts a)"
    by (rule restyle_traces_step)
  show ?case
  proof (cases r1)
    case (Inl e)
    with p Cons.prems have "fig' = f1" unfolding s by (simp del: restyle_traces.simps)
    with l1 show ?thesis by simp
  next
    case (Inr a)
    with p Cons.prems have "restyle_traces og f1 k v (Suc i) ts a = (fig', r)"
      unfolding s by (simp del: restyle_traces.simps)
    from Cons.IH [OF this] l1 show ?thesis by (simp add: same_but_data_def)
  qed
qed

lemma restyle_keys_frame:
  "restyle_keys og fig rd idxs ch = (fig', r) \<Longrightarrow>
   same_but_data fig fig' \<and> layout fig' = layout fig"
proof (induction rd arbitrary: fig ch)
  case Nil
  then show ?case by (simp add: same_but_data_def)
next
  case (Cons kv rd)
  obtain k v where kv: "kv = (k, v)" by (cases kv)
  obtain f1 r1 where p: "restyle_traces og fig k v 0 idxs False = (f1, r1)"
    by (cases "restyle_traces og fig k v 0 idxs False")
  have l1: "same_but_data fig f1 \<and> layout f1 = layout fig"
    using p by (rule restyle_traces_frame)
  show ?case
  proof (cases r1)
    case (Inl e)
    with p kv Cons.prems have "fig' = f1" by simp
    with l1 show ?thesis by simp
  next
    case (Inr a)
    with p kv Cons.prems obtain ch' where "restyle_keys og f1 rd idxs ch' = (fig', r)" by simp
    from Cons.IH [OF this] l1 show ?thesis by (simp add: same_but_data_def)
  qed
qed

lemma relayout_keys_frame:
  "relayout_keys og fig rd ch = (fig', r) \<Longrightarrow>
   same_but_data fig fig' \<and> data fig' = data fig"
proof (induction rd arbitrary: fig ch)
  case Nil
  then show ?case by (simp add: same_but_data_def)
next
  case (Cons kv rd)
  obtain k v where kv: "kv = (k, v)" by (cases kv)
  obtain f1 r1 where p: "relayout_keys og fig [kv] ch = (f1, r1)"
    by (cases "relayout_keys og fig [kv] ch")
  have l1: "same_but_data fig f1 \<and> data f1 = data fig"
    using p kv by (auto simp: same_but_data_def split: sum.splits if_splits prod.splits)
  show ?case
  proof (cases r1)
    case (Inl e)
    with p kv Cons.prems have "fig' = f1"
      by (auto split: sum.splits if_splits prod.splits)
    with l1 show ?thesis by simp
  next
    case (Inr a)
    with p kv Cons.prems obtain ch' where "relayout_keys og f1 rd ch' = (fig', r)"
      by (auto split: sum.splits if_splits prod.splits)
    from Cons.IH [OF this] l1 show ?thesis by (simp add: same_but_data_def)
  qed
qed

lemma perform_plotly_update_frame:
  assumes "perform_plotly_update og fig ra la ti = (f1, res)"
  shows "same_but_data fig f1"
proof (cases "(ra = None \<or> ra = Some []) \<and> (la = None \<or> la = Some [])")
  case True
  with assms have "f1 = fig" by (simp add: perform_plotly_update_def)
  then show ?thesis by (simp add: same_but_data_def)
next
  case False
  let ?rd = "case ra of None \<Rightarrow> [] | Some r \<Rightarrow> r"
  let ?ld = "case la of None \<Rightarrow> [] | Some r \<Rightarrow> r"
  obtain f2 r2 where a: "relayout_keys og fig ?ld [] = (f2, r2)"
    by (cases "relayout_keys og fig ?ld []")
  have fa: "same_but_data fig f2" using relayout_keys_frame [OF a] by simp
  show ?thesis
  proof (cases r2)
    case (Inl e)
    with assms a False have "f1 = f2"
      by (simp add: perform_plotly_update_def perform_plotly_relayout_def Let_def)
    with fa show ?thesis by simp
  next
    case (Inr lc)
    obtain f3 r3 where b: "restyle_keys og f2 ?rd (normalize_trace_indexes fig ti) [] = (f3, r3)"
      by (cases "restyle_keys og f2 ?rd (normalize_trace_indexes fig ti) []")
    have fb: "same_but_data f2 f3" using restyle_keys_frame [OF b] by simp
    from assms a b Inr False have "f1 = f3"
      by (cases r3) (simp_all add: perform_plotly_update_def perform_plotly_relayout_def
          perform_plotly_restyle_def Let_def)
    with fa fb show ?thesis by (simp add: same_but_data_def)
  qed
qed

lemma plotly_update_frame:
  assumes "plotly_update og fig ra la ti = (fig', evs, r)"
  shows "same_but_data fig fig'"
proof -
  obtain f1 res where p: "perform_plotly_update og fig ra la ti = (f1, res)"
    by (cases "perform_plotly_update og fig ra la ti")
  from plotly_update_outcome [OF assms] p have "fig' = f1" by auto
  with perform_plotly_update_frame [OF p] show ?thesis by simp
qed

subsection \<open>Writes in an open batch are saved, not applied\<close>

lemma restyle_child_batch:
  "in_batch_mode fig \<Longrightarrow> restyle_child og fig c k v = (fig', evs, r) \<Longrightarrow>
   evs = [] \<and> same_but_edits fig fig'"
  by (auto simp: restyle_child_def same_but_edits_def split: sum.splits)

lemma relayout_child_batch:
  "in_batch_mode fig \<Longrightarrow> relayout_child og fig c k v = (fig', evs, r) \<Longrightarrow>
   evs = [] \<and> same_but_edits fig fig'"
  by (auto simp: relayout_child_def same_but_edits_def split: if_splits)

lemma same_but_edits_refl: "same_but_edits fig fig"
  by (simp add: same_but_edits_def)

lemma send_prop_set_batch:
  "in_batch_mode fig \<Longrightarrow> send_prop_set og fig h self prop v = (fig', evs, r) \<Longrightarrow>
   evs = [] \<and> same_but_edits fig fig'"
  by (cases h) (auto simp: send_prop_set_def dest: restyle_child_batch relayout_child_batch)

lemma set_prop_batch:
  "in_batch_mode fig \<Longrightarrow> set_prop og fig h self prop v = (fig', evs, r) \<Longrightarrow>
   evs = [] \<and> same_but_edits fig fig'"
  by (auto simp: set_prop_def same_but_edits_refl
      split: if_splits sum.splits pyval.splits option.splits
      dest: send_prop_set_batch)

lemma put_child_props_objects: "same_objects fig (put_child_props fig child props)"
  by (simp add: same_objects_def put_child_props_def split: sum.splits)

lemma put_child_props_same:
  "get_child_props fig child = Inr props \<Longrightarrow> put_child_props fig child props = fig"
  by (auto simp: get_child_props_def put_child_props_def py_index_def py_pos_def
      split: sum.splits if_splits)

lemma same_but_edits_objects: "same_but_edits fig fig' \<Longrightarrow> same_objects fig fig'"
  by (simp add: same_but_edits_def same_objects_def)

lemma same_objects_trans:
  "same_objects fig fig1 \<Longrightarrow> same_objects fig1 fig2 \<Longrightarrow> same_objects fig fig2"
  by (simp add: same_objects_def)

lemma init_props_initialised:
  "props_at root_props (rev steps) = Inr props \<Longrightarrow> props \<noteq> PNone \<Longrightarrow>
   init_props root_props steps = (root_props, None)"
  by (cases steps) simp_all

lemma update_append_new:
  "map_of d k = None \<Longrightarrow> AList.update k v (d @ [(k, w)]) = d @ [(k, v)]"
  by (induction d) (auto split: if_splits)

lemma init_props_compound:
  "map_of d (KStr name) = None \<Longrightarrow>
   init_props (PDict d) [CompoundChild name] = (PDict (d @ [(KStr name, PDict [])]), None)"
  by (simp add: child_props_def init_child_def)

lemma init_props_array:
  "map_of d (KStr name) = None \<Longrightarrow>
   init_props (PDict d) [ArrayChild name child_ind] =
     (PDict (d @ [(KStr name, PList (replicate (Suc child_ind) (PDict [])))]), None)"
proof -
  assume n: "map_of d (KStr name) = None"
  then have m: "map_of (d @ [(KStr name, PList [])]) (KStr name) = Some (PList [])"
    by (simp add: map_add_def)
  have c: "child_props (PDict d) (ArrayChild name child_ind) = Inr PNone"
    using n by (simp add: child_props_def)
  have i: "init_child (PDict d) (ArrayChild name child_ind) =
             Inr (PDict (d @ [(KStr name, PList (replicate (Suc child_ind) (PDict [])))]))"
    unfolding init_child_def Let_def using n m
    by (simp add: update_append_new del: map_of_append)
  from c i show ?thesis by simp
qed

lemma set_nested_prop_batch:
  assumes b: "in_batch_mode fig"
    and s: "set_nested_prop og fig h root steps prop val = (fig', evs, r)"
  shows "evs = []"
    and "same_objects fig fig'"
    and "val = Undefined \<or> validate_coerce og root (prop_path_str steps prop) val = Inr PNone \<or>
         (\<exists>e. validate_coerce og root (prop_path_str steps prop) val = Inl e) \<or>
         (\<exists>e. get_child_props fig root = Inl e) \<Longrightarrow> same_but_edits fig fig'"
    and "val \<noteq> Undefined \<Longrightarrow>
         validate_coerce og root (prop_path_str steps prop) val = Inr val' \<Longrightarrow> val' \<noteq> PNone \<Longrightarrow>
         get_child_props fig root = Inr root_props \<Longrightarrow>
         same_but_edits (put_child_props fig root (fst (init_props root_props (rev steps)))) fig'"
proof -
  define fig1 where
    "fig1 = (case get_child_props fig root of
               Inr root_props \<Rightarrow> put_child_props fig root (fst (init_props root_props (rev steps)))
             | Inl e \<Rightarrow> fig)"
  have o1: "same_objects fig fig1"
    using put_child_props_objects [of fig root]
    by (cases "get_child_props fig root") (simp_all add: fig1_def same_objects_def)
  then have b1: "in_batch_mode fig1" using b by (simp add: same_objects_def)
  have m: "evs = [] \<and>
       (if val \<noteq> Undefined \<and>
           (\<exists>val'. validate_coerce og root (prop_path_str steps prop) val = Inr val' \<and> val' \<noteq> PNone) \<and>
           (\<exists>root_props. get_child_props fig root = Inr root_props)
        then same_but_edits fig1 fig' else same_but_edits fig fig')"
    using s b b1
    apply (simp add: set_nested_prop_def fig1_def Let_def same_but_edits_refl
        split: if_splits sum.splits prod.splits option.splits pyval.splits list.splits)
    apply (auto dest: send_prop_set_batch simp: same_but_edits_refl)
    done
  from m show "evs = []" by simp
  from m o1 show "same_objects fig fig'"
    by (auto split: if_splits dest: same_but_edits_objects same_objects_trans)
  from m show "val = Undefined \<or> validate_coerce og root (prop_path_str steps prop) val = Inr PNone \<or>
         (\<exists>e. validate_coerce og root (prop_path_str steps prop) val = Inl e) \<or>
         (\<exists>e. get_child_props fig root = Inl e) \<Longrightarrow> same_but_edits fig fig'"
    by (auto split: if_splits)
  from m show "val \<noteq> Undefined \<Longrightarrow>
         validate_coerce og root (prop_path_str steps prop) val = Inr val' \<Longrightarrow> val' \<noteq> PNone \<Longrightarrow>
         get_child_props fig root = Inr root_props \<Longrightarrow>
         same_but_edits (put_child_props fig root (fst (init_props root_props (rev steps)))) fig'"
    by (auto simp: fig1_def split: if_splits)
qed

lemma run_write_batch:
  assumes "in_batch_mode fig" and "run_write og w fig = (fig', evs, r)"
  shows "evs = [] \<and> same_objects fig fig' \<and> (\<not> is_nested_write w \<longrightarrow> same_but_edits fig fig')"
proof (cases w)
  case (TraceWrite child k v)
  with assms restyle_child_batch [of fig og child k v fig' evs r] show ?thesis
    by (simp add: run_write_def same_but_edits_objects)
next
  case (LayoutWrite child k v)
  with assms relayout_child_batch [of fig og child k v fig' evs r] show ?thesis
    by (simp add: run_write_def same_but_edits_objects)
next
  case (SetProp h self name v)
  with assms set_prop_batch [of fig og h self name v fig' evs r] show ?thesis
    by (simp add: run_write_def same_but_edits_objects)
next
  case (SetNestedProp h root steps name v)
  with assms have s: "set_nested_prop og fig h root steps name v = (fig', evs, r)"
    by (simp add: run_write_def)
  from set_nested_prop_batch(1,2) [OF assms(1) s] SetNestedProp show ?thesis by simp
qed

lemma run_writes_batch:
  "in_batch_mode fig \<Longrightarrow> run_writes og ws fig = (fig', evs, r) \<Longrightarrow>
   evs = [] \<and> same_objects fig fig' \<and>
   (list_all (\<lambda>w. \<not> is_nested_write w) ws \<longrightarrow> same_but_edits fig fig')"
proof (induction ws arbitrary: fig fig' evs r)
  case Nil
  then show ?case by (simp add: same_but_edits_def same_objects_def)
next
  case (Cons w ws)
  obtain f1 e1 r1 where p: "run_write og w fig = (f1, e1, r1)"
    by (cases "run_write og w fig") auto
  from run_write_batch [OF Cons.prems(1) p]
  have a: "e1 = []" "same_objects fig f1" "\<not> is_nested_write w \<longrightarrow> same_but_edits fig f1"
    by auto
  show ?case
  proof (cases r1)
    case (Some e)
    with p Cons.prems(2) a show ?thesis by simp
  next
    case None
    obtain f2 e2 r2 where q: "run_writes og ws f1 = (f2, e2, r2)"
      by (cases "run_writes og ws f1") auto
    from a Cons.prems(1) have "in_batch_mode f1" by (simp add: same_objects_def)
    from Cons.IH [OF this q]
    have "e2 = []" "same_objects f1 f2"
      "list_all (\<lambda>w. \<not> is_nested_write w) ws \<longrightarrow> same_but_edits f1 f2" by auto
    with p q None Cons.prems(2) a show ?thesis
      by (auto simp: same_but_edits_def same_objects_def)
  qed
qed

subsection \<open>The parameters built from the saved edits\<close>

lemma set_slot_fst: "map fst (set_slot rd p j v) = map fst rd"
  by (induction rd) (auto simp: set_slot_def)

lemma set_slot_snd:
  "i < length rd \<Longrightarrow>
   snd (set_slot rd p j v ! i) = (if fst (rd ! i) = p then (snd (rd ! i))[j := v] else snd (rd ! i))"
  by (auto simp: set_slot_def split: prod.splits)

lemma nested_fold_flat:
  "fold (\<lambda>(t, st) rd. fold (\<lambda>(p, v) rd'. set_slot rd' p (g t) v) st rd) cmds rd0 =
   fold (\<lambda>(t, p, v) rd. set_slot rd p (g t) v)
     (concat (map (\<lambda>(t, st). map (Pair t) st) cmds)) rd0"
proof (induction cmds arbitrary: rd0)
  case Nil
  then show ?case by simp
next
  case (Cons c cmds)
  obtain t st where c: "c = (t, st)" by (cases c)
  have "fold (\<lambda>(p, v) rd'. set_slot rd' p (g t) v) st rd =
        fold (\<lambda>(t, p, v) rd. set_slot rd p (g t) v) (map (Pair t) st) rd" for rd
    by (induction st arbitrary: rd) auto
  with Cons c show ?case by simp
qed

lemma fold_writes_slots:
  "i < length rd \<Longrightarrow>
   map fst (fold (\<lambda>(t, p, v) rd. set_slot rd p (g t) v) ws rd) = map fst rd \<and>
   snd (fold (\<lambda>(t, p, v) rd. set_slot rd p (g t) v) ws rd ! i) =
     fold (\<lambda>(t, p, v) vals. if p = fst (rd ! i) then vals[g t := v] else vals) ws (snd (rd ! i))"
proof (induction ws arbitrary: rd)
  case Nil
  then show ?case by simp
next
  case (Cons w ws)
  obtain t p v where w: "w = (t, p, v)" by (cases w)
  have l: "length (set_slot rd p (g t) v) = length rd" by (simp add: set_slot_def)
  have f: "fst (set_slot rd p (g t) v ! i) = fst (rd ! i)"
    using Cons.prems set_slot_fst [of rd p "g t" v] by (metis l nth_map)
  from Cons.IH [of "set_slot rd p (g t) v"] Cons.prems l f w set_slot_snd [OF Cons.prems]
  show ?case by (simp add: set_slot_fst)
qed

lemma fold_slot_last:
  "j < length vals0 \<Longrightarrow>
   length (fold (\<lambda>(t, p, v) vals. if p = q then vals[g t := v] else vals) ws vals0) = length vals0 \<and>
   fold (\<lambda>(t, p, v) vals. if p = q then vals[g t := v] else vals) ws vals0 ! j =
     (case map_of (rev (map snd (filter (\<lambda>w. g (fst w) = j) ws))) q of
        None \<Rightarrow> vals0 ! j | Some v \<Rightarrow> v)"
proof (induction ws rule: rev_induct)
  case Nil
  then show ?case by simp
next
  case (snoc w ws)
  obtain t p v where w: "w = (t, p, v)" by (cases w)
  from snoc w show ?case by (auto simp: nth_list_update)
qed

lemma flat_filter:
  "map snd (filter (\<lambda>w. P (fst w)) (concat (map (\<lambda>(t, st). map (Pair t) st) cmds))) =
   concat (map snd (filter (\<lambda>(t, st). P t) cmds))"
proof (induction cmds)
  case Nil
  then show ?case by simp
next
  case (Cons c cmds)
  obtain t st where c: "c = (t, st)" by (cases c)
  have "map snd (filter (\<lambda>w. P (fst w)) (map (Pair t) st)) = (if P t then st else [])"
    by (induction st) auto
  with Cons c show ?case by simp
qed

lemma index_of_position:
  "distinct xs \<Longrightarrow> j < length xs \<Longrightarrow> x \<in> set xs \<Longrightarrow> index_of xs x = j \<longleftrightarrow> x = xs ! j"
proof (induction xs arbitrary: j)
  case Nil
  then show ?case by simp
next
  case (Cons a xs)
  then show ?case by (cases j) (auto simp: index_of_def)
qed

lemma build_update_params_slots:
  assumes "build_update_params_from_batch fig = (restyle_data, relayout_data, trace_indexes)"
  shows "trace_indexes = map int (sort (remdups (map fst (batch_trace_edits fig))))"
    and "relayout_data = batch_layout_edits fig"
    and "map fst restyle_data =
           sort (remdups (concat (map (\<lambda>(trace_ind, trace_style). map fst trace_style)
                                    (batch_trace_edits fig))))"
    and "i < length restyle_data \<Longrightarrow>
         \<exists>vals. snd (restyle_data ! i) = PList vals \<and> length vals = length trace_indexes \<and>
           (\<forall>j < length trace_indexes.
              vals ! j =
                (case map_of (rev (concat (map snd
                        (filter (\<lambda>(trace_ind, trace_style). int trace_ind = trace_indexes ! j)
                           (batch_trace_edits fig)))))
                      (fst (restyle_data ! i)) of
                   None \<Rightarrow> Undefined | Some v \<Rightarrow> v))"
proof -
  define cmds where "cmds = batch_trace_edits fig"
  define ts where "ts = sort (remdups (map fst cmds))"
  define props where
    "props = sort (remdups (concat (map (\<lambda>(trace_ind, trace_style). map fst trace_style) cmds)))"
  define rd0 where "rd0 = map (\<lambda>prop. (prop, replicate (length ts) Undefined)) props"
  define ws where "ws = concat (map (\<lambda>(t, st). map (Pair t) st) cmds)"
  define rd where "rd = fold (\<lambda>(t, p, v) rd. set_slot rd p (index_of ts t) v) ws rd0"
  have b: "build_update_params_from_batch fig =
             (map (\<lambda>(prop, vals). (prop, PList vals)) rd, batch_layout_edits fig, map int ts)"
    unfolding build_update_params_from_batch_def Let_def rd_def ws_def rd0_def props_def ts_def
      cmds_def nested_fold_flat ..
  with assms have r: "restyle_data = map (\<lambda>(prop, vals). (prop, PList vals)) rd"
    and t: "trace_indexes = map int ts" and l: "relayout_data = batch_layout_edits fig"
    by simp_all
  from t show "trace_indexes = map int (sort (remdups (map fst (batch_trace_edits fig))))"
    by (simp add: ts_def cmds_def)
  from l show "relayout_data = batch_layout_edits fig" .
  have len0: "length rd0 = length props" by (simp add: rd0_def)
  have fst0: "map fst rd0 = props" by (simp add: rd0_def comp_def)
  have fst_rd: "map fst rd = props"
  proof (cases "rd0 = []")
    case True
    have "fold (\<lambda>(t, p, v) rd. set_slot rd p (g t) v) ws [] = []" for g
      by (induction ws) (auto simp: set_slot_def)
    with True fst0 show ?thesis by (simp add: rd_def)
  next
    case False
    then have "0 < length rd0" by simp
    from fold_writes_slots [OF this, of "index_of ts" ws] fst0 show ?thesis by (simp add: rd_def)
  qed
  from r fst_rd show "map fst restyle_data =
           sort (remdups (concat (map (\<lambda>(trace_ind, trace_style). map fst trace_style)
                                    (batch_trace_edits fig))))"
    by (simp add: props_def cmds_def comp_def case_prod_beta)
  assume i: "i < length restyle_data"
  from fst_rd have lrd: "length rd = length props" by (metis length_map)
  from i r lrd len0 have i0: "i < length rd0" and i1: "i < length rd" by simp_all
  define q where "q = fst (rd0 ! i)"
  define vals where
    "vals = fold (\<lambda>(t, p, v) vals. if p = q then vals[index_of ts t := v] else vals) ws
              (snd (rd0 ! i))"
  from fold_writes_slots [OF i0, of "index_of ts" ws]
  have sv: "snd (rd ! i) = vals" by (simp add: rd_def vals_def q_def)
  have qi: "fst (restyle_data ! i) = q"
  proof -
    from r i1 have "fst (restyle_data ! i) = fst (rd ! i)" by (simp add: case_prod_beta)
    also have "\<dots> = map fst rd ! i" using i1 by simp
    also have "\<dots> = map fst rd0 ! i" using fst_rd fst0 by simp
    also have "\<dots> = q" using i0 by (simp add: q_def)
    finally show ?thesis .
  qed
  have s0: "snd (rd0 ! i) = replicate (length ts) Undefined"
    using i0 by (simp add: rd0_def)
  have sr: "snd (restyle_data ! i) = PList vals"
    using r i1 sv by (simp add: case_prod_beta)
  have dts: "distinct ts" by (simp add: ts_def)
  have sts: "set ts = fst ` set cmds" by (simp add: ts_def)
  have lv: "length vals = length ts"
  proof (cases "ts = []")
    case True
    have "length (fold (\<lambda>(t, p, v) vals. if p = q then vals[g t := v] else vals) ws vs)
            = length vs" for g vs
      by (induction ws arbitrary: vs) auto
    with s0 show ?thesis by (simp add: vals_def)
  next
    case False
    then have "0 < length (snd (rd0 ! i))" using s0 by simp
    from fold_slot_last [OF this, of q "index_of ts" ws] s0 show ?thesis by (simp add: vals_def)
  qed
  have "vals ! j =
          (case map_of (rev (concat (map snd (filter (\<lambda>(t, st). int t = trace_indexes ! j) cmds)))) q of
             None \<Rightarrow> Undefined | Some v \<Rightarrow> v)" if j: "j < length trace_indexes" for j
  proof -
    from j t have jt: "j < length ts" by simp
    then have j0: "j < length (snd (rd0 ! i))" using s0 by simp
    have e: "filter (\<lambda>(t, st). index_of ts t = j) cmds = filter (\<lambda>(t, st). int t = trace_indexes ! j) cmds"
    proof (rule filter_cong [OF refl])
      fix c assume c: "c \<in> set cmds"
      then have "fst c \<in> set ts" using sts by auto
      from index_of_position [OF dts jt this] t jt
      show "(case c of (t, st) \<Rightarrow> index_of ts t = j) = (case c of (t, st) \<Rightarrow> int t = trace_indexes ! j)"
        by (auto simp: case_prod_beta)
    qed
    from fold_slot_last [OF j0, of q "index_of ts" ws] s0 jt
    have "vals ! j =
            (case map_of (rev (map snd (filter (\<lambda>w. index_of ts (fst w) = j) ws))) q of
               None \<Rightarrow> Undefined | Some v \<Rightarrow> v)"
      by (simp add: vals_def split: option.splits)
    also have "map snd (filter (\<lambda>w. index_of ts (fst w) = j) ws) =
               concat (map snd (filter (\<lambda>(t, st). index_of ts t = j) cmds))"
      unfolding ws_def by (rule flat_filter)
    finally show ?thesis using e by simp
  qed
  with sr lv t qi
  show "\<exists>vals. snd (restyle_data ! i) = PList vals \<and> length vals = length trace_indexes \<and>
           (\<forall>j < length trace_indexes.
              vals ! j =
                (case map_of (rev (concat (map snd
                        (filter (\<lambda>(trace_ind, trace_style). int trace_ind = trace_indexes ! j)
                           (batch_trace_edits fig)))))
                      (fst (restyle_data ! i)) of
                   None \<Rightarrow> Undefined | Some v \<Rightarrow> v))"
    by (simp add: cmds_def)
qed

lemma build_update_params_flag:
  "build_update_params_from_batch (fig\<lparr>in_batch_mode := b\<rparr>) = build_update_params_from_batch fig"
  by (simp add: build_update_params_from_batch_def)

lemma callback_not_update: "is_callback ev \<Longrightarrow> \<not> is_update_msg ev"
  by (cases ev) auto

lemma plotly_update_events:
  assumes "plotly_update og fig ra la ti = (fig', evs, r)"
  shows "evs = [] \<or> (is_update_msg (hd evs) \<and> list_all is_callback (tl evs))"
proof -
  from plotly_update_outcome [OF assms] obtain res where
    c: "case res of
            Inl e \<Rightarrow> evs = [] \<and> r = Some e
          | Inr None \<Rightarrow> evs = [] \<and> r = None
          | Inr (Some (restyle_changes, relayout_changes, idxs)) \<Rightarrow>
              (restyle_changes = [] \<and> relayout_changes = [] \<longrightarrow> evs = [] \<and> r = None) \<and>
              (restyle_changes \<noteq> [] \<or> relayout_changes \<noteq> [] \<longrightarrow>
                 hd evs = UpdateMsg restyle_changes relayout_changes idxs \<and> evs \<noteq> [] \<and>
                 list_all is_callback (tl evs))"
    by blast
  then show ?thesis
    by (cases res) (auto split: option.splits)
qed

lemma one_update_msg:
  assumes "evs = [] \<or> (is_update_msg (hd evs) \<and> list_all is_callback (tl evs))"
  shows "length (filter is_update_msg evs) \<le> 1 \<and>
         list_all (\<lambda>ev. is_update_msg ev \<or> is_callback ev) evs"
proof (cases evs)
  case Nil
  then show ?thesis by simp
next
  case (Cons ev rest)
  with assms have h: "is_update_msg ev" "list_all is_callback rest" by auto
  then have "filter is_update_msg rest = []"
    by (auto simp: list_all_iff filter_empty_conv callback_not_update)
  with Cons h show ?thesis by (auto simp: list_all_iff)
qed

subsection \<open>What the exit of the outermost batch does\<close>

lemma batch_update_commit:
  assumes nb: "\<not> in_batch_mode fig"
    and b: "body (fig\<lparr>in_batch_mode := True\<rparr>) = (fig1, evs1, r1)"
    and p: "build_update_params_from_batch fig1 = (rd, ld, ti)"
    and u: "plotly_update og (fig1\<lparr>in_batch_mode := False\<rparr>) (Some rd) (Some ld) (TraceList ti)
              = (fig3, evs2, r2)"
  shows "batch_update og fig body =
           (if r2 = None then fig3\<lparr>batch_layout_edits := [], batch_trace_edits := []\<rparr> else fig3,
            evs1 @ evs2, if r2 = None then r1 else r2)"
    and "\<not> in_batch_mode fig3"
    and "batch_trace_edits fig3 = batch_trace_edits fig1"
    and "batch_layout_edits fig3 = batch_layout_edits fig1"
proof -
  from plotly_update_frame [OF u]
  show "\<not> in_batch_mode fig3" "batch_trace_edits fig3 = batch_trace_edits fig1"
    "batch_layout_edits fig3 = batch_layout_edits fig1"
    by (simp_all add: same_but_data_def)
  from nb b p u show "batch_update og fig body =
           (if r2 = None then fig3\<lparr>batch_layout_edits := [], batch_trace_edits := []\<rparr> else fig3,
            evs1 @ evs2, if r2 = None then r1 else r2)"
    by (cases r2) (simp_all add: batch_update_def build_update_params_flag)
qed

subsection \<open>An exception in the body of a batch\<close>

text \<open>
  Claim C9 as stated: after an exception in the body the saved edits are committed, and
  only afterwards are the batch flag and the saved edits cleared. In the source the
  \<^verbatim>\<open>finally\<close> block clears the flag first. Here the body saves one layout edit and then
  raises; the callback fired by the commit reads the flag and the number of saved layout
  edits: the flag is already off (0) while the edit is still saved (1).
\<close>

theorem C9_flag_cleared_before_commit_counterexample:
  "batch_update probe_objects example_figure
     (raise_after (run_writes probe_objects [LayoutWrite 7 ''a'' (PInt 1)]) KeyError) =
   (example_figure\<lparr>layout := PDict [(KStr ''a'', PInt 1)]\<rparr>,
    [UpdateMsg [] [(''a'', PInt 1)] [],
     CallbackCall 1 7 [ItemValue (PList [PInt 0, PInt 1])]],
    Some KeyError)"
  by code_simp

text \<open>
  Claim C9, amended: when the body of an outermost \<^verbatim>\<open>batch_update\<close> block raises, the
  exit first switches the batch flag off, then builds the parameters of the update from the
  edits saved so far and runs \<^verbatim>\<open>plotly_update\<close> with them, whose events follow those
  of the body. When the update returns, the saved edits are cleared and the error of the
  body goes on; when the update raises, its error replaces that of the body and the saved
  edits stay. In both cases the flag is off at the end.
\<close>

theorem C9_exception_in_batch_commits:
  assumes "\<not> in_batch_mode fig"
    and "body (fig\<lparr>in_batch_mode := True\<rparr>) = (fig1, evs1, Some e)"
  shows "\<exists>rd ld ti fig3 evs2 r2 fig'.
           build_update_params_from_batch fig1 = (rd, ld, ti) \<and>
           plotly_update og (fig1\<lparr>in_batch_mode := False\<rparr>) (Some rd) (Some ld) (TraceList ti)
             = (fig3, evs2, r2) \<and>
           batch_update og fig body = (fig', evs1 @ evs2, if r2 = None then Some e else r2) \<and>
           data fig' = data fig3 \<and> layout fig' = layout fig3 \<and>
           \<not> in_batch_mode fig' \<and>
           (r2 = None \<longrightarrow> batch_trace_edits fig' = [] \<and> batch_layout_edits fig' = []) \<and>
           (r2 \<noteq> None \<longrightarrow> batch_trace_edits fig' = batch_trace_edits fig1 \<and>
                              batch_layout_edits fig' = batch_layout_edits fig1)"
proof -
  obtain rd ld ti where p: "build_update_params_from_batch fig1 = (rd, ld, ti)"
    by (cases "build_update_params_from_batch fig1") auto
  obtain fig3 evs2 r2 where
    u: "plotly_update og (fig1\<lparr>in_batch_mode := False\<rparr>) (Some rd) (Some ld) (TraceList ti)
          = (fig3, evs2, r2)"
    by (cases "plotly_update og (fig1\<lparr>in_batch_mode := False\<rparr>) (Some rd) (Some ld) (TraceList ti)")
      auto
  note c = batch_update_commit [where body = body and fig = fig, OF assms p u]
  show ?thesis
  proof (cases r2)
    case None
    with p u c show ?thesis by simp
  next
    case (Some e2)
    with p u c show ?thesis by simp
  qed
qed

theorem C9_exception_in_batch_commits_witness:
  "\<not> in_batch_mode example_figure \<and>
   raise_after (run_writes probe_objects [LayoutWrite 7 ''a'' (PInt 1)]) KeyError
       (example_figure\<lparr>in_batch_mode := True\<rparr>)
     = (example_figure\<lparr>in_batch_mode := True, batch_layout_edits := [(''a'', PInt 1)]\<rparr>,
        [], Some KeyError) \<and>
   snd (snd (batch_update probe_objects example_figure
               (raise_after (run_writes probe_objects [LayoutWrite 7 ''a'' (PInt 1)]) KeyError)))
     \<noteq> None \<and>
   \<not> in_batch_mode (fst (batch_update probe_objects example_figure
               (raise_after (run_writes probe_objects [LayoutWrite 7 ''a'' (PInt 1)]) KeyError)))"
proof -
  let ?body = "raise_after (run_writes probe_objects [LayoutWrite 7 ''a'' (PInt 1)]) KeyError"
  let ?F = "example_figure\<lparr>in_batch_mode := True, batch_layout_edits := [(''a'', PInt 1)]\<rparr>"
  have a: "\<not> in_batch_mode example_figure" by (simp add: example_figure_def)
  have b: "?body (example_figure\<lparr>in_batch_mode := True\<rparr>) = (?F, [], Some KeyError)"
    by code_simp
  from C9_exception_in_batch_commits [where fig = example_figure and body = ?body
      and og = probe_objects, OF a b]
  have "snd (snd (batch_update probe_objects example_figure ?body)) \<noteq> None \<and>
        \<not> in_batch_mode (fst (batch_update probe_objects example_figure ?body))"
    by (elim exE conjE) (simp split: if_splits)
  with a b show ?thesis by (intro conjI) blast+
qed

subsection \<open>One update for a whole batch\<close>

text \<open>
  Claim C2 as stated: the writes of a block yield exactly one update message on exit.
  A block whose only write assigns to a property the value that it already has yields no
  message and no callback: the update message is sent only for a non-empty changeset.
\<close>

theorem C2_no_change_no_message_counterexample:
  "batch_update example_objects example_figure same_uid_body = (example_figure, [], None)"
  by code_simp

text \<open>
  Claim C2, amended. In an open batch \<^verbatim>\<open>batch_update\<close> only runs its body. The steps
  of a body run in an open batch emit nothing and leave the objects, the defaults and the
  flag alone; steps that are not assignments below a trace or the layout change nothing
  but the saved edits. An assignment to a property of an object below a trace or the
  layout, with a value that is not \<^verbatim>\<open>None\<close> after validation, first initialises the
  properties of that object in the data or layout of the figure, also in an open batch,
  and changes nothing else but the saved edits; nothing is initialised when the
  properties are there already, and where the name of a child of the trace or layout is
  missing, an empty dict is put under it for a compound child, and for an element of a
  compound array a list of empty dicts up to its position. The parameters built from the saved edits are the saved
  layout edits, the sorted indexes of the traces with saved edits, and for each property
  with a saved edit, in sorted order, a list with one slot for each of these traces, which
  holds the value saved for the trace and the property (the last one in the order of the
  saved edits, should there be several), or \<^verbatim>\<open>Undefined\<close>. At the exit of an
  outermost block the events are exactly those of one \<^verbatim>\<open>plotly_update\<close> with these
  parameters on the figure that the body left: no event when nothing changes, and
  otherwise one update message with the changes, followed by the callback calls of the
  traces for the restyle changes and then those of the layout for the relayout changes,
  so at most one update message.
\<close>

theorem C2_batch_update_single_commit:
  "(in_batch_mode fig \<longrightarrow> batch_update og fig body = body fig) \<and>
   (in_batch_mode fig \<longrightarrow> run_writes og ws fig = (fig1, evs1, r1) \<longrightarrow>
      evs1 = [] \<and> same_objects fig fig1 \<and>
      (list_all (\<lambda>w. \<not> is_nested_write w) ws \<longrightarrow> same_but_edits fig fig1)) \<and>
   (in_batch_mode fig \<longrightarrow> set_nested_prop og fig h root steps prop val = (fig2, evs2, r2) \<longrightarrow>
      (val = Undefined \<or> validate_coerce og root (prop_path_str steps prop) val = Inr PNone \<or>
       (\<exists>e. validate_coerce og root (prop_path_str steps prop) val = Inl e) \<or>
       (\<exists>e. get_child_props fig root = Inl e) \<longrightarrow> same_but_edits fig fig2) \<and>
      (\<forall>val' root_props.
         val \<noteq> Undefined \<longrightarrow>
         validate_coerce og root (prop_path_str steps prop) val = Inr val' \<longrightarrow> val' \<noteq> PNone \<longrightarrow>
         get_child_props fig root = Inr root_props \<longrightarrow>
         same_but_edits (put_child_props fig root (fst (init_props root_props (rev steps)))) fig2 \<and>
         (\<forall>props. props_at root_props steps = Inr props \<longrightarrow> props \<noteq> PNone \<longrightarrow>
            same_but_edits fig fig2))) \<and>
   (map_of d (KStr name) = None \<longrightarrow>
      init_props (PDict d) [CompoundChild name] = (PDict (d @ [(KStr name, PDict [])]), None) \<and>
      init_props (PDict d) [ArrayChild name child_ind] =
        (PDict (d @ [(KStr name, PList (replicate (Suc child_ind) (PDict [])))]), None)) \<and>
   (build_update_params_from_batch fig = (restyle_data, relayout_data, trace_indexes) \<longrightarrow>
      trace_indexes = map int (sort (remdups (map fst (batch_trace_edits fig)))) \<and>
      relayout_data = batch_layout_edits fig \<and>
      map fst restyle_data =
        sort (remdups (concat (map (\<lambda>(trace_ind, trace_style). map fst trace_style)
                                 (batch_trace_edits fig)))) \<and>
      (\<forall>i < length restyle_data.
         \<exists>vals. snd (restyle_data ! i) = PList vals \<and> length vals = length trace_indexes \<and>
           (\<forall>j < length trace_indexes.
              vals ! j =
                (case map_of (rev (concat (map snd
                        (filter (\<lambda>(trace_ind, trace_style). int trace_ind = trace_indexes ! j)
                           (batch_trace_edits fig)))))
                      (fst (restyle_data ! i)) of
                   None \<Rightarrow> Undefined | Some v \<Rightarrow> v)))) \<and>
   (\<not> in_batch_mode fig \<longrightarrow> batch_update og fig (run_writes og ws) = (fig', evs, r) \<longrightarrow>
      (\<exists>figb rb rd ld ti fig3 r2.
         run_writes og ws (fig\<lparr>in_batch_mode := True\<rparr>) = (figb, [], rb) \<and>
         same_objects (fig\<lparr>in_batch_mode := True\<rparr>) figb \<and>
         (list_all (\<lambda>w. \<not> is_nested_write w) ws \<longrightarrow>
            same_but_edits (fig\<lparr>in_batch_mode := True\<rparr>) figb) \<and>
         build_update_params_from_batch figb = (rd, ld, ti) \<and>
         plotly_update og (figb\<lparr>in_batch_mode := False\<rparr>) (Some rd) (Some ld) (TraceList ti)
           = (fig3, evs, r2) \<and>
         data fig' = data fig3 \<and> layout fig' = layout fig3 \<and> \<not> in_batch_mode fig' \<and>
         (evs = [] \<or> is_update_msg (hd evs) \<and> list_all is_callback (tl evs)) \<and>
         length (filter is_update_msg evs) \<le> 1 \<and>
         (\<exists>res. perform_plotly_update og (figb\<lparr>in_batch_mode := False\<rparr>) (Some rd) (Some ld)
                  (TraceList ti) = (fig3, res) \<and>
            (case res of
               Inl e \<Rightarrow> evs = []
             | Inr None \<Rightarrow> evs = []
             | Inr (Some (restyle_changes, relayout_changes, idxs)) \<Rightarrow>
                 (restyle_changes = [] \<and> relayout_changes = [] \<longrightarrow> evs = []) \<and>
                 (restyle_changes \<noteq> [] \<or> relayout_changes \<noteq> [] \<longrightarrow>
                    evs \<noteq> [] \<and>
                    hd evs = UpdateMsg restyle_changes relayout_changes idxs \<and>
                    evs = UpdateMsg restyle_changes relayout_changes idxs #
                      (if restyle_changes \<noteq> []
                       then fst (dispatch_trace_change_callbacks og fig3 restyle_changes idxs)
                       else []) @
                      (if relayout_changes \<noteq> [] \<and>
                          (restyle_changes = [] \<or>
                           snd (dispatch_trace_change_callbacks og fig3 restyle_changes idxs)
                             = None)
                       then fst (dispatch_layout_change_callbacks og fig3 relayout_changes)
                       else []))))))"
proof (intro conjI impI allI)
  assume "in_batch_mode fig"
  then show "batch_update og fig body = body fig" by (simp add: batch_update_def)
next
  assume "in_batch_mode fig" "run_writes og ws fig = (fig1, evs1, r1)"
  from run_writes_batch [OF this]
  show "evs1 = []" "same_objects fig fig1" by simp_all
next
  assume "in_batch_mode fig" "run_writes og ws fig = (fig1, evs1, r1)"
    "list_all (\<lambda>w. \<not> is_nested_write w) ws"
  with run_writes_batch [of fig og ws fig1 evs1 r1]
  show "same_but_edits fig fig1" by simp
next
  assume "in_batch_mode fig" "set_nested_prop og fig h root steps prop val = (fig2, evs2, r2)"
    "val = Undefined \<or> validate_coerce og root (prop_path_str steps prop) val = Inr PNone \<or>
       (\<exists>e. validate_coerce og root (prop_path_str steps prop) val = Inl e) \<or>
       (\<exists>e. get_child_props fig root = Inl e)"
  from set_nested_prop_batch(3) [OF this] show "same_but_edits fig fig2" .
next
  fix val' root_props
  assume "in_batch_mode fig" "set_nested_prop og fig h root steps prop val = (fig2, evs2, r2)"
    "val \<noteq> Undefined" "validate_coerce og root (prop_path_str steps prop) val = Inr val'"
    "val' \<noteq> PNone" "get_child_props fig root = Inr root_props"
  from set_nested_prop_batch(4) [OF this]
  show "same_but_edits (put_child_props fig root (fst (init_props root_props (rev steps)))) fig2" .
next
  fix val' root_props props
  assume a: "in_batch_mode fig" "set_nested_prop og fig h root steps prop val = (fig2, evs2, r2)"
    "val \<noteq> Undefined" "validate_coerce og root (prop_path_str steps prop) val = Inr val'"
    "val' \<noteq> PNone" "get_child_props fig root = Inr root_props"
    and p: "props_at root_props steps = Inr props" "props \<noteq> PNone"
  from p have "init_props root_props (rev steps) = (root_props, None)"
    by (intro init_props_initialised [where props = props]) simp_all
  with set_nested_prop_batch(4) [OF a] put_child_props_same [OF a(6)]
  show "same_but_edits fig fig2" by simp
next
  assume "map_of d (KStr name) = None"
  then show "init_props (PDict d) [CompoundChild name] =
      (PDict (d @ [(KStr name, PDict [])]), None)"
    by (rule init_props_compound)
next
  assume "map_of d (KStr name) = None"
  then show "init_props (PDict d) [ArrayChild name child_ind] =
        (PDict (d @ [(KStr name, PList (replicate (Suc child_ind) (PDict [])))]), None)"
    by (rule init_props_array)
next
  assume "build_update_params_from_batch fig = (restyle_data, relayout_data, trace_indexes)"
  from build_update_params_slots(1-3) [OF this]
  show "trace_indexes = map int (sort (remdups (map fst (batch_trace_edits fig))))"
    "relayout_data = batch_layout_edits fig"
    "map fst restyle_data =
        sort (remdups (concat (map (\<lambda>(trace_ind, trace_style). map fst trace_style)
                                 (batch_trace_edits fig))))" .
next
  fix i
  assume "build_update_params_from_batch fig = (restyle_data, relayout_data, trace_indexes)"
    "i < length restyle_data"
  from build_update_params_slots(4) [OF this]
  show "\<exists>vals. snd (restyle_data ! i) = PList vals \<and> length vals = length trace_indexes \<and>
           (\<forall>j < length trace_indexes.
              vals ! j =
                (case map_of (rev (concat (map snd
                        (filter (\<lambda>(trace_ind, trace_style). int trace_ind = trace_indexes ! j)
                           (batch_trace_edits fig)))))
                      (fst (restyle_data ! i)) of
                   None \<Rightarrow> Undefined | Some v \<Rightarrow> v))" .
next
  assume nb: "\<not> in_batch_mode fig"
    and bu: "batch_update og fig (run_writes og ws) = (fig', evs, r)"
  obtain figb evsb rb where
    b: "run_writes og ws (fig\<lparr>in_batch_mode := True\<rparr>) = (figb, evsb, rb)"
    by (cases "run_writes og ws (fig\<lparr>in_batch_mode := True\<rparr>)") auto
  have "in_batch_mode (fig\<lparr>in_batch_mode := True\<rparr>)" by simp
  from run_writes_batch [OF this b]
  have e: "evsb = []" and s: "same_objects (fig\<lparr>in_batch_mode := True\<rparr>) figb"
    and s': "list_all (\<lambda>w. \<not> is_nested_write w) ws \<longrightarrow>
               same_but_edits (fig\<lparr>in_batch_mode := True\<rparr>) figb" by auto
  obtain rd ld ti where p: "build_update_params_from_batch figb = (rd, ld, ti)"
    by (cases "build_update_params_from_batch figb") auto
  obtain fig3 evs2 r2 where
    u: "plotly_update og (figb\<lparr>in_batch_mode := False\<rparr>) (Some rd) (Some ld) (TraceList ti)
          = (fig3, evs2, r2)"
    by (cases "plotly_update og (figb\<lparr>in_batch_mode := False\<rparr>) (Some rd) (Some ld) (TraceList ti)")
      auto
  note c = batch_update_commit [where body = "run_writes og ws" and fig = fig, OF nb b p u]
  from c(1) bu e have ev: "evs = evs2" by simp
  from c bu have f: "data fig' = data fig3" "layout fig' = layout fig3" "\<not> in_batch_mode fig'"
    by (auto split: if_splits)
  note m = plotly_update_events [OF u]
  note n = one_update_msg [OF m]
  from plotly_update_outcome [OF u] obtain res where
    pu: "perform_plotly_update og (figb\<lparr>in_batch_mode := False\<rparr>) (Some rd) (Some ld)
           (TraceList ti) = (fig3, res)"
    and oc: "case res of
               Inl e \<Rightarrow> evs2 = [] \<and> r2 = Some e
             | Inr None \<Rightarrow> evs2 = [] \<and> r2 = None
             | Inr (Some (restyle_changes, relayout_changes, idxs)) \<Rightarrow>
                 (restyle_changes = [] \<and> relayout_changes = [] \<longrightarrow> evs2 = [] \<and> r2 = None) \<and>
                 (restyle_changes \<noteq> [] \<or> relayout_changes \<noteq> [] \<longrightarrow>
                    hd evs2 = UpdateMsg restyle_changes relayout_changes idxs \<and> evs2 \<noteq> [] \<and>
                    list_all is_callback (tl evs2))"
    by blast
  have q: "case res of
               Inl e \<Rightarrow> evs2 = []
             | Inr None \<Rightarrow> evs2 = []
             | Inr (Some (restyle_changes, relayout_changes, idxs)) \<Rightarrow>
                 (restyle_changes = [] \<and> relayout_changes = [] \<longrightarrow> evs2 = []) \<and>
                 (restyle_changes \<noteq> [] \<or> relayout_changes \<noteq> [] \<longrightarrow>
                    evs2 \<noteq> [] \<and>
                    hd evs2 = UpdateMsg restyle_changes relayout_changes idxs \<and>
                    evs2 = UpdateMsg restyle_changes relayout_changes idxs #
                      (if restyle_changes \<noteq> []
                       then fst (dispatch_trace_change_callbacks og fig3 restyle_changes idxs)
                       else []) @
                      (if relayout_changes \<noteq> [] \<and>
                          (restyle_changes = [] \<or>
                           snd (dispatch_trace_change_callbacks og fig3 restyle_changes idxs)
                             = None)
                       then fst (dispatch_layout_change_callbacks og fig3 relayout_changes)
                       else []))"
  proof (cases res)
    case (Inl e)
    with oc show ?thesis by simp
  next
    case (Inr opt)
    show ?thesis
    proof (cases opt)
      case None
      with Inr oc show ?thesis by simp
    next
      case (Some t)
      obtain restyle_changes relayout_changes idxs where
        t: "t = (restyle_changes, relayout_changes, idxs)" by (cases t)
      from pu Inr Some t have pe: "perform_plotly_update og (figb\<lparr>in_batch_mode := False\<rparr>)
           (Some rd) (Some ld) (TraceList ti)
             = (fig3, Inr (Some (restyle_changes, relayout_changes, idxs)))" by simp
      note x = plotly_update_exact [OF u pe]
      from oc Inr Some t x show ?thesis by simp
    qed
  qed
  from b e s s' p u ev f m n pu q
  show "\<exists>figb rb rd ld ti fig3 r2.
         run_writes og ws (fig\<lparr>in_batch_mode := True\<rparr>) = (figb, [], rb) \<and>
         same_objects (fig\<lparr>in_batch_mode := True\<rparr>) figb \<and>
         (list_all (\<lambda>w. \<not> is_nested_write w) ws \<longrightarrow>
            same_but_edits (fig\<lparr>in_batch_mode := True\<rparr>) figb) \<and>
         build_update_params_from_batch figb = (rd, ld, ti) \<and>
         plotly_update og (figb\<lparr>in_batch_mode := False\<rparr>) (Some rd) (Some ld) (TraceList ti)
           = (fig3, evs, r2) \<and>
         data fig' = data fig3 \<and> layout fig' = layout fig3 \<and> \<not> in_batch_mode fig' \<and>
         (evs = [] \<or> is_update_msg (hd evs) \<and> list_all is_callback (tl evs)) \<and>
         length (filter is_update_msg evs) \<le> 1 \<and>
         (\<exists>res. perform_plotly_update og (figb\<lparr>in_batch_mode := False\<rparr>) (Some rd) (Some ld)
                  (TraceList ti) = (fig3, res) \<and>
            (case res of
               Inl e \<Rightarrow> evs = []
             | Inr None \<Rightarrow> evs = []
             | Inr (Some (restyle_changes, relayout_changes, idxs)) \<Rightarrow>
                 (restyle_changes = [] \<and> relayout_changes = [] \<longrightarrow> evs = []) \<and>
                 (restyle_changes \<noteq> [] \<or> relayout_changes \<noteq> [] \<longrightarrow>
                    evs \<noteq> [] \<and>
                    hd evs = UpdateMsg restyle_changes relayout_changes idxs \<and>
                    evs = UpdateMsg restyle_changes relayout_changes idxs #
                      (if restyle_changes \<noteq> []
                       then fst (dispatch_trace_change_callbacks og fig3 restyle_changes idxs)
                       else []) @
                      (if relayout_changes \<noteq> [] \<and>
                          (restyle_changes = [] \<or>
                           snd (dispatch_trace_change_callbacks og fig3 restyle_changes idxs)
                             = None)
                       then fst (dispatch_layout_change_callbacks og fig3 relayout_changes)
                       else []))))"
    by blast
qed

theorem C2_batch_update_single_commit_witness:
  "batch_update example_objects example_figure
     (run_writes example_objects
        [LayoutWrite 7 ''a'' (PInt 1), SetProp TraceHierarchy 0 ''b'' (PInt 2),
         SetNestedProp TraceHierarchy 1 [CompoundChild ''marker''] ''color'' (PStr ''red''),
         TraceWrite 1 ''b'' (PInt 3),
         SetNestedProp LayoutHierarchy 7 [ArrayChild ''annotations'' 1, CompoundChild ''font'']
           ''size'' (PInt 3),
         LayoutWrite 7 ''a'' (PInt 4)])
     = (example_figure\<lparr>
          data := [PDict [(KStr ''uid'', PStr ''u0''), (KStr ''b'', PInt 2)],
                   PDict [(KStr ''uid'', PStr ''u1''),
                          (KStr ''marker'', PDict [(KStr ''color'', PStr ''red'')]),
                          (KStr ''b'', PInt 3)]],
          layout := PDict [(KStr ''annotations'',
                            PList [PDict [],
                                   PDict [(KStr ''font'', PDict [(KStr ''size'', PInt 3)])]]),
                           (KStr ''a'', PInt 4)]\<rparr>,
        [UpdateMsg [(''b'', PList [PInt 2, PInt 3]),
                    (''marker.color'', PList [Undefined, PStr ''red''])]
           [(''a'', PInt 4), (''annotations.1.font.size'', PInt 3)] [0, 1],
         CallbackCall 1 7 [ItemValue (PInt 4)]], None) \<and>
   length (filter is_update_msg
        [UpdateMsg [(''b'', PList [PInt 2, PInt 3]),
                    (''marker.color'', PList [Undefined, PStr ''red''])]
           [(''a'', PInt 4), (''annotations.1.font.size'', PInt 3)] [0, 1],
         CallbackCall 1 7 [ItemValue (PInt 4)]]) \<le> 1 \<and>
   run_writes example_objects
        [LayoutWrite 7 ''a'' (PInt 1), SetProp TraceHierarchy 0 ''b'' (PInt 2),
         SetNestedProp TraceHierarchy 1 [CompoundChild ''marker''] ''color'' (PStr ''red''),
         TraceWrite 1 ''b'' (PInt 3),
         SetNestedProp LayoutHierarchy 7 [ArrayChild ''annotations'' 1, CompoundChild ''font'']
           ''size'' (PInt 3),
         LayoutWrite 7 ''a'' (PInt 4)]
        (example_figure\<lparr>in_batch_mode := True\<rparr>)
     = (example_figure\<lparr>
          data := [PDict [(KStr ''uid'', PStr ''u0'')],
                   PDict [(KStr ''uid'', PStr ''u1''), (KStr ''marker'', PDict [])]],
          layout := PDict [(KStr ''annotations'',
                            PList [PDict [], PDict [(KStr ''font'', PDict [])]])],
          in_batch_mode := True,
          batch_trace_edits := [(0, [(''b'', PInt 2)]),
                                (1, [(''marker.color'', PStr ''red''), (''b'', PInt 3)])],
          batch_layout_edits := [(''a'', PInt 4), (''annotations.1.font.size'', PInt 3)]\<rparr>,
        [], None)"
proof -
  let ?ws = "[LayoutWrite 7 ''a'' (PInt 1), SetProp TraceHierarchy 0 ''b'' (PInt 2),
         SetNestedProp TraceHierarchy 1 [CompoundChild ''marker''] ''color'' (PStr ''red''),
         TraceWrite 1 ''b'' (PInt 3),
         SetNestedProp LayoutHierarchy 7 [ArrayChild ''annotations'' 1, CompoundChild ''font'']
           ''size'' (PInt 3),
         LayoutWrite 7 ''a'' (PInt 4)]"
  let ?F = "example_figure\<lparr>
          data := [PDict [(KStr ''uid'', PStr ''u0''), (KStr ''b'', PInt 2)],
                   PDict [(KStr ''uid'', PStr ''u1''),
                          (KStr ''marker'', PDict [(KStr ''color'', PStr ''red'')]),
                          (KStr ''b'', PInt 3)]],
          layout := PDict [(KStr ''annotations'',
                            PList [PDict [],
                                   PDict [(KStr ''font'', PDict [(KStr ''size'', PInt 3)])]]),
                           (KStr ''a'', PInt 4)]\<rparr>"
  let ?evs = "[UpdateMsg [(''b'', PList [PInt 2, PInt 3]),
                    (''marker.color'', PList [Undefined, PStr ''red''])]
           [(''a'', PInt 4), (''annotations.1.font.size'', PInt 3)] [0, 1],
         CallbackCall 1 7 [ItemValue (PInt 4)]]"
  let ?B = "example_figure\<lparr>
          data := [PDict [(KStr ''uid'', PStr ''u0'')],
                   PDict [(KStr ''uid'', PStr ''u1''), (KStr ''marker'', PDict [])]],
          layout := PDict [(KStr ''annotations'',
                            PList [PDict [], PDict [(KStr ''font'', PDict [])]])],
          in_batch_mode := True,
          batch_trace_edits := [(0, [(''b'', PInt 2)]),
                                (1, [(''marker.color'', PStr ''red''), (''b'', PInt 3)])],
          batch_layout_edits := [(''a'', PInt 4), (''annotations.1.font.size'', PInt 3)]\<rparr>"
  have nb: "\<not> in_batch_mode example_figure" by (simp add: example_figure_def)
  have a: "batch_update example_objects example_figure (run_writes example_objects ?ws)
             = (?F, ?evs, None)"
    by code_simp
  have b: "run_writes example_objects ?ws (example_figure\<lparr>in_batch_mode := True\<rparr>)
             = (?B, [], None)"
    by code_simp
  from C2_batch_update_single_commit [where og = example_objects and fig = example_figure
      and ws = ?ws and fig' = ?F and evs = ?evs and r = None,
      THEN conjunct2, THEN conjunct2, THEN conjunct2, THEN conjunct2, THEN conjunct2,
      rule_format, OF nb a]
  have c: "length (filter is_update_msg ?evs) \<le> 1"
    by (elim exE conjE)
  from a c b show ?thesis by (intro conjI)
qed

section \<open>Change callbacks\<close>

subsection \<open>The dispatch plan\<close>













subsection \<open>The callbacks of one object\<close>






lemma calls_of_map:
  "length (filter (is_call_of cb) (map (\<lambda>callback. CallbackCall callback self args) cbs))
     = count_list cbs cb"
  by (induction cbs) auto






subsection \<open>The two dispatch loops\<close>




subsection \<open>How often a callback fires\<close>




section \<open>Assigning the traces\<close>

subsection \<open>Removing and moving traces does not fail on a well-formed figure\<close>

lemma has_uid_is_dict: "has_uid d \<Longrightarrow> is_dict d"
  by (cases d) auto

lemma dict_update_dicts:
  "is_dict d \<Longrightarrow> is_dict other \<Longrightarrow> \<exists>r. dict_update d other = Inr r \<and> is_dict r"
  by (cases d; cases other) (auto simp: dict_update_def)

lemma index_is_found:
  assumes "i < length objs"
  shows "\<exists>j. index_is objs (obj_id (objs ! i)) = Inr j \<and> j \<le> i"
proof -
  let ?js = "filter (\<lambda>j. obj_id (objs ! j) = obj_id (objs ! i)) [0..<length objs]"
  from assms have m: "i \<in> set ?js" by simp
  then obtain j rest where js: "?js = j # rest" by (cases ?js) auto
  have "sorted ?js" by (rule sorted_wrt_filter) simp
  with js m have "j \<le> i" by auto
  with js show ?thesis by (simp add: index_is_def)
qed

lemma unparent_ok:
  assumes "i < length (data_objs fig)" "i < length (data fig)"
    and "list_all is_dict (data fig)"
    and "list_all (\<lambda>trace. is_dict (obj_orphan_props trace)) (data_objs fig)"
  shows "\<exists>fig'. unparent fig i = Inr fig' \<and> data fig' = data fig \<and>
           data_defaults fig' = data_defaults fig \<and>
           length (data_objs fig') = length (data_objs fig) \<and>
           list_all (\<lambda>trace. is_dict (obj_orphan_props trace)) (data_objs fig')"
proof -
  let ?old = "data_objs fig ! i"
  from assms(1,4) have od: "is_dict (obj_orphan_props ?old)" by (simp add: list_all_length)
  have "\<exists>props. (if obj_has_parent ?old then get_child_props fig (obj_id ?old)
               else Inr (obj_orphan_props ?old)) = Inr props \<and> is_dict props"
  proof (cases "obj_has_parent ?old")
    case True
    from index_is_found [OF assms(1)] obtain j where
      j: "index_is (data_objs fig) (obj_id ?old) = Inr j" "j \<le> i" by blast
    with assms(2) have "j < length (data fig)" by simp
    with assms(3) have "py_index (data fig) (int j) = Inr (data fig ! j)" "is_dict (data fig ! j)"
      by (simp_all add: py_index_def py_pos_def list_all_length)
    with True j show ?thesis by (simp add: get_child_props_def)
  next
    case False
    with od show ?thesis by simp
  qed
  then obtain props where p: "(if obj_has_parent ?old then get_child_props fig (obj_id ?old)
               else Inr (obj_orphan_props ?old)) = Inr props" "is_dict props" by blast
  from dict_update_dicts [OF od p(2)] obtain r where
    r: "dict_update (obj_orphan_props ?old) props = Inr r" "is_dict r" by blast
  from assms(1) p(1) r(1) have u: "unparent fig i = Inr (fig\<lparr>data_objs :=
           map (\<lambda>trace. if obj_id trace = obj_id ?old
                         then trace\<lparr>obj_orphan_props := r, obj_has_parent := False\<rparr>
                         else trace) (data_objs fig)\<rparr>)"
    unfolding unparent_def Let_def by (simp del: dict_update_def)
  from assms(4) r(2) show ?thesis unfolding u by (auto simp: list_all_iff)
qed

lemma unparent_removed_ok:
  assumes "\<forall>i \<in> set inds. i < length (data_objs fig) \<and> i < length (data fig)"
    and "list_all is_dict (data fig)"
    and "list_all (\<lambda>trace. is_dict (obj_orphan_props trace)) (data_objs fig)"
  shows "\<exists>fig'. unparent_removed fig inds = (fig', None) \<and> data fig' = data fig \<and>
           data_defaults fig' = data_defaults fig"
  using assms
proof (induction inds arbitrary: fig)
  case Nil
  then show ?case by simp
next
  case (Cons i inds)
  from Cons.prems have "i < length (data_objs fig)" "i < length (data fig)" by auto
  from unparent_ok [OF this Cons.prems(2,3)] obtain f1 where
    f: "unparent fig i = Inr f1" "data f1 = data fig" "data_defaults f1 = data_defaults fig"
       "length (data_objs f1) = length (data_objs fig)"
       "list_all (\<lambda>trace. is_dict (obj_orphan_props trace)) (data_objs f1)"
    by blast
  from Cons.prems f have "\<forall>i \<in> set inds. i < length (data_objs f1) \<and> i < length (data f1)"
    "list_all is_dict (data f1)" by auto
  from Cons.IH [OF this f(5)] f show ?case by auto
qed


lemma collect_ok:
  "\<forall>x \<in> set xs. f x = Inr (g x) \<Longrightarrow> collect f xs = Inr (map g xs)"
  by (induction xs) auto

lemma collect_length: "collect f xs = Inr ys \<Longrightarrow> length ys = length xs"
  by (induction xs arbitrary: ys) (auto split: sum.splits)

lemma py_sorted_distinct:
  "distinct (map fst pairs) \<Longrightarrow> py_sorted pairs = Inr (sort_key fst pairs)"
proof -
  assume d: "distinct (map fst pairs)"
  have "fst (pairs ! a) \<noteq> fst (pairs ! b)" if "a < b" "b < length pairs" for a b
  proof -
    from that have l: "a < length (map fst pairs)" "b < length (map fst pairs)" "a \<noteq> b"
      by simp_all
    from nth_eq_iff_index_eq [OF d l(1,2)] l(3)
    have "map fst pairs ! a \<noteq> map fst pairs ! b" by blast
    with that show ?thesis by simp
  qed
  then show ?thesis by (auto simp: py_sorted_def list_ex_iff)
qed

lemma sort_key_fst_distinct:
  "distinct (map fst (sort_key fst pairs)) \<longleftrightarrow> distinct (map fst pairs)"
  by (simp add: distinct_map)

lemma zip_fst_distinct: "distinct xs \<Longrightarrow> distinct (map fst (zip xs ys))"
  by (simp add: map_fst_zip_take)

lemma index_of_nth: "x \<in> set xs \<Longrightarrow> xs ! index_of xs x = x"
  unfolding index_of_def
  by (induction xs) auto

lemma index_of_inj: "inj_on (index_of xs) (set xs)"
  by (rule inj_onI) (metis index_of_nth)

lemma replace_traces_ok:
  assumes "list_all is_dict (data fig)"
    and "list_all (\<lambda>trace. is_dict (obj_orphan_props trace)) (data_objs fig)"
    and "length (data_objs fig) = length (data fig)"
    and "length (data_defaults fig) = length (data fig)"
    and "length orig_uids = length (data fig)"
    and "distinct orig_uids"
  shows "\<exists>fig' evs. replace_traces fig new_data orig_uids new_uids = (fig', evs, None)"
proof -
  define delete_inds where
    "delete_inds = filter (\<lambda>i. orig_uids ! i \<notin> set new_uids) [0..<length (data fig)]"
  have di: "\<forall>i \<in> set delete_inds. i < length (data_objs fig) \<and> i < length (data fig)"
    using assms(3) by (simp add: delete_inds_def)
  from unparent_removed_ok [OF di assms(1,2)] obtain fig1 where
    u: "unparent_removed fig delete_inds = (fig1, None)" "data fig1 = data fig"
       "data_defaults fig1 = data_defaults fig"
    by blast
  have l: "\<not> (delete_inds \<noteq> [] \<and> length (data_defaults fig1) \<le> last delete_inds)"
  proof
    assume a: "delete_inds \<noteq> [] \<and> length (data_defaults fig1) \<le> last delete_inds"
    then have "last delete_inds \<in> set delete_inds" by simp
    with di have "last delete_inds < length (data fig)" by blast
    with a u(3) assms(4) show False by simp
  qed
  define kept where "kept = filter (\<lambda>i. i \<notin> set delete_inds) [0..<length (data fig)]"
  define props where "props = map (\<lambda>i. data fig ! i) kept"
  define defaults where "defaults = map (\<lambda>i. data_defaults fig ! i)
      (filter (\<lambda>i. i \<notin> set delete_inds) [0..<length (data_defaults fig)])"
  define uids where "uids = map (\<lambda>i. orig_uids ! i) kept"
  define new_inds where "new_inds = map (index_of new_uids) uids"
  have k: "\<forall>i \<in> set kept. i < length orig_uids \<and> orig_uids ! i \<in> set new_uids"
    using assms(5) by (auto simp: kept_def delete_inds_def)
  have dk: "distinct kept" by (simp add: kept_def)
  have du: "distinct uids"
    unfolding uids_def distinct_map
  proof (intro conjI inj_onI)
    show "distinct kept" by (rule dk)
  next
    fix i j assume "i \<in> set kept" "j \<in> set kept" "orig_uids ! i = orig_uids ! j"
    with k assms(6) show "i = j" by (simp add: nth_eq_iff_index_eq)
  qed
  have su: "set uids \<subseteq> set new_uids" using k by (auto simp: uids_def)
  have c: "collect (\<lambda>uid. if uid \<in> set new_uids then Inr (index_of new_uids uid)
                           else Inl (ValueError InvalidValue)) uids = Inr new_inds"
    unfolding new_inds_def using su by (intro collect_ok) auto
  have dn: "distinct new_inds"
    unfolding new_inds_def distinct_map using du su index_of_inj [of new_uids]
    by (auto intro: inj_on_subset)
  note s1 = py_sorted_distinct [OF zip_fst_distinct [OF dn, of props]]
  note s2 = py_sorted_distinct [OF zip_fst_distinct [OF dn, of defaults]]
  have "distinct (map fst (sort_key fst (zip new_inds props)))"
    unfolding sort_key_fst_distinct by (rule zip_fst_distinct [OF dn])
  note s3 = py_sorted_distinct [OF zip_fst_distinct [OF this, of defaults]]
  show ?thesis
    unfolding replace_traces_def Let_def
    unfolding delete_inds_def [symmetric]
    using l
    apply (simp only: u prod.case option.case if_False)
    unfolding kept_def [symmetric] defaults_def [symmetric]
    unfolding props_def [symmetric] uids_def [symmetric]
    apply (simp only: c sum.case figure.simps length_map)
    apply (simp only: s1 s2 s3 sum.case)
    apply (cases "new_inds \<noteq> [0..<length props]")
     apply simp_all
    done
qed

subsection \<open>The checks of the setter\<close>

lemma has_uid_getitem:
  "has_uid d \<Longrightarrow> \<exists>u. py_getitem d (KStr ''uid'') = Inr (PStr u)"
  by (cases d) (auto split: option.splits pyval.splits)

lemma has_uid_collect:
  "list_all has_uid ds \<Longrightarrow>
   \<exists>us. collect (\<lambda>trace_dict. py_getitem trace_dict (KStr ''uid'')) ds = Inr us \<and>
        list_all hashable us"
proof (induction ds)
  case Nil
  then show ?case by simp
next
  case (Cons d ds)
  then obtain us where
    "collect (\<lambda>trace_dict. py_getitem trace_dict (KStr ''uid'')) ds = Inr us" "list_all hashable us"
    by auto
  moreover from Cons.prems obtain u where "py_getitem d (KStr ''uid'') = Inr (PStr u)"
    using has_uid_getitem by auto
  ultimately show ?case by simp
qed

lemma replace_traces_None:
  "replace_traces fig new_data orig_uids new_uids = (fig', evs, None) \<Longrightarrow>
   data_objs fig' = new_data"
  by (auto simp: replace_traces_def Let_def split: prod.splits option.splits if_splits sum.splits)

lemma data_setter_None:
  assumes "data_setter fig new_data = (fig', evs, None)"
  shows "\<exists>elems orig_uids. new_data = Sequence elems \<and> list_all is_trace elems \<and>
           orig_uids_of fig = Inr orig_uids \<and> set (new_uids_of elems) \<subseteq> set orig_uids \<and>
           distinct (new_uids_of elems) \<and> data_objs fig' = traces_of elems"
proof (cases new_data)
  case (NotSequence v)
  with assms show ?thesis by (simp add: data_setter_def)
next
  case (Sequence elems)
  with assms obtain orig_uids where o: "orig_uids_of fig = Inr orig_uids"
    and t: "list_all is_trace elems"
    by (cases "orig_uids_of fig") (auto simp: data_setter_def split: if_splits)
  from assms Sequence o t have
    s: "set (new_uids_of elems) \<subseteq> set orig_uids" and d: "distinct (new_uids_of elems)"
    and r: "replace_traces fig (traces_of elems) orig_uids (new_uids_of elems) = (fig', evs, None)"
    by (auto simp: data_setter_def Let_def list_ex_iff split: if_splits)
  from replace_traces_None [OF r] Sequence o t s d show ?thesis by simp
qed


lemma data_setter_checks:
  assumes "orig_uids_of fig = Inr orig_uids" and "list_all hashable orig_uids"
    and "list_all is_trace elems"
  shows "\<not> set (new_uids_of elems) \<subseteq> set orig_uids \<Longrightarrow>
           data_setter fig (Sequence elems) =
             (fig, [], Some (ValueError (InvalidDataAssignment InvalidTraceUids)))"
    and "set (new_uids_of elems) \<subseteq> set orig_uids \<Longrightarrow> \<not> distinct (new_uids_of elems) \<Longrightarrow>
           data_setter fig (Sequence elems) =
             (fig, [], Some (ValueError (InvalidDataAssignment DuplicatedTraceUids)))"
  using assms by (auto simp: data_setter_def Let_def list_ex_iff)

lemma data_setter_accepts:
  assumes "list_all has_uid (data fig)" and o: "orig_uids_of fig = Inr orig_uids"
    and "distinct orig_uids"
    and "length (data_objs fig) = length (data fig)"
    and "length (data_defaults fig) = length (data fig)"
    and "list_all (\<lambda>trace. is_dict (obj_orphan_props trace)) (data_objs fig)"
    and t: "list_all is_trace elems" and s: "set (new_uids_of elems) \<subseteq> set orig_uids"
    and d: "distinct (new_uids_of elems)"
  shows "\<exists>fig' evs. data_setter fig (Sequence elems) = (fig', evs, None) \<and>
           data_objs fig' = traces_of elems"
proof -
  from assms(1) o have h: "list_all hashable orig_uids"
    using has_uid_collect [of "data fig"] by (auto simp: orig_uids_of_def)
  from o have l: "length orig_uids = length (data fig)"
    unfolding orig_uids_of_def by (rule collect_length)
  from assms(1) have dd: "list_all is_dict (data fig)"
    by (auto simp: list_all_iff has_uid_is_dict)
  from replace_traces_ok [OF dd assms(6,4,5) l assms(3)] obtain fig' evs where
    r: "replace_traces fig (traces_of elems) orig_uids (new_uids_of elems) = (fig', evs, None)"
    by blast
  from o h t s d r have "data_setter fig (Sequence elems) = (fig', evs, None)"
    by (auto simp: data_setter_def Let_def list_ex_iff)
  with replace_traces_None [OF r] show ?thesis by blast
qed

text \<open>
  Claim C6 as stated: the \<^verbatim>\<open>data\<close> setter raises \<^verbatim>\<open>ValueError\<close> whenever the list
  holds a uid that no current trace has. The uids of the current traces are read, by
  \<^verbatim>\<open>_trace['uid']\<close>, before the uids are checked: on a figure whose first trace has lost
  its uid (assigning \<^verbatim>\<open>None\<close> to a property pops its key), a trace with an unknown uid
  is refused with \<^verbatim>\<open>KeyError\<close>, the figure left as it was.
\<close>

theorem C6_missing_uid_counterexample:
  "data_setter (example_figure\<lparr>data := [PDict [], PDict [(KStr ''uid'', PStr ''u1'')]]\<rparr>)
     (Sequence [TraceElem (example_trace 2 ''u2'')]) =
   (example_figure\<lparr>data := [PDict [], PDict [(KStr ''uid'', PStr ''u1'')]]\<rparr>, [],
    Some KeyError)"
  by code_simp

text \<open>
  Claim C6, amended: the \<^verbatim>\<open>data\<close> setter raises \<^verbatim>\<open>ValueError\<close>, with the figure as it
  was and nothing sent, when the value is not a list or tuple and when an element is not a
  trace; and, on a figure whose every trace has a uid, when a uid is not one of the
  current traces and when a uid occurs twice. The uids of the current traces are read
  after the first two checks: when every trace has a uid they are read without error, and
  an error in reading them is raised with the figure as it was. An assignment that
  returns is a list of traces with distinct uids, all of them uids of current traces, and
  these traces are then the traces of the figure. On a figure whose traces have distinct
  uids, with as many trace objects and defaults as traces and a dict as the orphan
  properties of every trace object, such a list of traces is accepted.
\<close>

theorem C6_data_setter_validates_first:
  "data_setter fig (NotSequence v) =
     (fig, [], Some (ValueError (InvalidDataAssignment ReceivedType))) \<and>
   (\<not> list_all is_trace elems \<longrightarrow>
      data_setter fig (Sequence elems) =
        (fig, [], Some (ValueError (InvalidDataAssignment ReceivedElementType)))) \<and>
   (list_all has_uid (data fig) \<longrightarrow> (\<exists>orig_uids. orig_uids_of fig = Inr orig_uids)) \<and>
   (orig_uids_of fig = Inl e \<and> list_all is_trace elems \<longrightarrow>
      data_setter fig (Sequence elems) = (fig, [], Some e)) \<and>
   (list_all has_uid (data fig) \<and> orig_uids_of fig = Inr orig_uids \<and>
    list_all is_trace elems \<and> \<not> set (new_uids_of elems) \<subseteq> set orig_uids \<longrightarrow>
      data_setter fig (Sequence elems) =
        (fig, [], Some (ValueError (InvalidDataAssignment InvalidTraceUids)))) \<and>
   (list_all has_uid (data fig) \<and> orig_uids_of fig = Inr orig_uids \<and>
    list_all is_trace elems \<and> set (new_uids_of elems) \<subseteq> set orig_uids \<and>
    \<not> distinct (new_uids_of elems) \<longrightarrow>
      data_setter fig (Sequence elems) =
        (fig, [], Some (ValueError (InvalidDataAssignment DuplicatedTraceUids)))) \<and>
   (data_setter fig new_data = (fig', evs, None) \<longrightarrow>
      (\<exists>accepted uids. new_data = Sequence accepted \<and> list_all is_trace accepted \<and>
         orig_uids_of fig = Inr uids \<and> set (new_uids_of accepted) \<subseteq> set uids \<and>
         distinct (new_uids_of accepted) \<and> data_objs fig' = traces_of accepted)) \<and>
   (list_all has_uid (data fig) \<and> orig_uids_of fig = Inr orig_uids \<and> distinct orig_uids \<and>
    length (data_objs fig) = length (data fig) \<and>
    length (data_defaults fig) = length (data fig) \<and>
    list_all (\<lambda>trace. is_dict (obj_orphan_props trace)) (data_objs fig) \<and>
    list_all is_trace elems \<and> set (new_uids_of elems) \<subseteq> set orig_uids \<and>
    distinct (new_uids_of elems) \<longrightarrow>
      (\<exists>fig2 evs2. data_setter fig (Sequence elems) = (fig2, evs2, None) \<and>
         data_objs fig2 = traces_of elems))"
proof (intro conjI impI)
  show "data_setter fig (NotSequence v) =
     (fig, [], Some (ValueError (InvalidDataAssignment ReceivedType)))"
    by (simp add: data_setter_def)
next
  assume "\<not> list_all is_trace elems"
  then show "data_setter fig (Sequence elems) =
        (fig, [], Some (ValueError (InvalidDataAssignment ReceivedElementType)))"
    by (simp add: data_setter_def)
next
  assume "list_all has_uid (data fig)"
  then show "\<exists>orig_uids. orig_uids_of fig = Inr orig_uids"
    unfolding orig_uids_of_def using has_uid_collect by blast
next
  assume "orig_uids_of fig = Inl e \<and> list_all is_trace elems"
  then show "data_setter fig (Sequence elems) = (fig, [], Some e)"
    by (simp add: data_setter_def)
next
  assume a: "list_all has_uid (data fig) \<and> orig_uids_of fig = Inr orig_uids \<and>
    list_all is_trace elems \<and> \<not> set (new_uids_of elems) \<subseteq> set orig_uids"
  then have "list_all hashable orig_uids"
    using has_uid_collect [of "data fig"] by (auto simp: orig_uids_of_def)
  with a show "data_setter fig (Sequence elems) =
        (fig, [], Some (ValueError (InvalidDataAssignment InvalidTraceUids)))"
    using data_setter_checks(1) by blast
next
  assume a: "list_all has_uid (data fig) \<and> orig_uids_of fig = Inr orig_uids \<and>
    list_all is_trace elems \<and> set (new_uids_of elems) \<subseteq> set orig_uids \<and>
    \<not> distinct (new_uids_of elems)"
  then have "list_all hashable orig_uids"
    using has_uid_collect [of "data fig"] by (auto simp: orig_uids_of_def)
  with a show "data_setter fig (Sequence elems) =
        (fig, [], Some (ValueError (InvalidDataAssignment DuplicatedTraceUids)))"
    using data_setter_checks(2) by blast
next
  assume "data_setter fig new_data = (fig', evs, None)"
  then show "\<exists>accepted uids. new_data = Sequence accepted \<and> list_all is_trace accepted \<and>
         orig_uids_of fig = Inr uids \<and> set (new_uids_of accepted) \<subseteq> set uids \<and>
         distinct (new_uids_of accepted) \<and> data_objs fig' = traces_of accepted"
    by (rule data_setter_None)
next
  assume "list_all has_uid (data fig) \<and> orig_uids_of fig = Inr orig_uids \<and> distinct orig_uids \<and>
    length (data_objs fig) = length (data fig) \<and>
    length (data_defaults fig) = length (data fig) \<and>
    list_all (\<lambda>trace. is_dict (obj_orphan_props trace)) (data_objs fig) \<and>
    list_all is_trace elems \<and> set (new_uids_of elems) \<subseteq> set orig_uids \<and>
    distinct (new_uids_of elems)"
  then show "\<exists>fig2 evs2. data_setter fig (Sequence elems) = (fig2, evs2, None) \<and>
         data_objs fig2 = traces_of elems"
    using data_setter_accepts by blast
qed

theorem C6_data_setter_validates_first_witness:
  "list_all has_uid (data example_figure) \<and>
   orig_uids_of example_figure = Inr [PStr ''u0'', PStr ''u1''] \<and>
   data_setter example_figure (Sequence [TraceElem (example_trace 2 ''u2'')]) =
     (example_figure, [], Some (ValueError (InvalidDataAssignment InvalidTraceUids))) \<and>
   data_setter example_figure
       (Sequence [TraceElem (example_trace 0 ''u0''), TraceElem (example_trace 0 ''u0'')]) =
     (example_figure, [], Some (ValueError (InvalidDataAssignment DuplicatedTraceUids))) \<and>
   data_setter example_figure
       (Sequence [TraceElem (example_trace 1 ''u1''), TraceElem (example_trace 0 ''u0'')]) =
     (example_figure\<lparr>data := [PDict [(KStr ''uid'', PStr ''u1'')],
                                 PDict [(KStr ''uid'', PStr ''u0'')]],
                       data_objs := [example_trace 1 ''u1'', example_trace 0 ''u0'']\<rparr>,
      [MoveTracesMsg [0, 1] [1, 0]], None)"
proof -
  let ?bad = "[TraceElem (example_trace 2 ''u2'')]"
  let ?dup = "[TraceElem (example_trace 0 ''u0''), TraceElem (example_trace 0 ''u0'')]"
  have h: "list_all has_uid (data example_figure)" by (simp add: example_figure_def)
  have o: "orig_uids_of example_figure = Inr [PStr ''u0'', PStr ''u1'']" by code_simp
  have t1: "list_all is_trace ?bad" by simp
  have n1: "\<not> set (new_uids_of ?bad) \<subseteq> set [PStr ''u0'', PStr ''u1'']"
    by (simp add: new_uids_of_def example_trace_def)
  have t2: "list_all is_trace ?dup" by simp
  have s2: "set (new_uids_of ?dup) \<subseteq> set [PStr ''u0'', PStr ''u1'']"
    by (simp add: new_uids_of_def example_trace_def)
  have n2: "\<not> distinct (new_uids_of ?dup)" by (simp add: new_uids_of_def)
  note c = C6_data_setter_validates_first [where fig = example_figure
      and orig_uids = "[PStr ''u0'', PStr ''u1'']"]
  from c [where elems = ?bad, THEN conjunct2, THEN conjunct2, THEN conjunct2,
      THEN conjunct2, THEN conjunct1, rule_format] h o t1 n1
  have r1: "data_setter example_figure (Sequence ?bad) =
     (example_figure, [], Some (ValueError (InvalidDataAssignment InvalidTraceUids)))"
    by blast
  from c [where elems = ?dup, THEN conjunct2, THEN conjunct2, THEN conjunct2,
      THEN conjunct2, THEN conjunct2, THEN conjunct1, rule_format] h o t2 s2 n2
  have r2: "data_setter example_figure (Sequence ?dup) =
     (example_figure, [], Some (ValueError (InvalidDataAssignment DuplicatedTraceUids)))"
    by blast
  have r3: "data_setter example_figure
       (Sequence [TraceElem (example_trace 1 ''u1''), TraceElem (example_trace 0 ''u0'')]) =
     (example_figure\<lparr>data := [PDict [(KStr ''uid'', PStr ''u1'')],
                                 PDict [(KStr ''uid'', PStr ''u0'')]],
                       data_objs := [example_trace 1 ''u1'', example_trace 0 ''u0'']\<rparr>,
      [MoveTracesMsg [0, 1] [1, 0]], None)"
    by code_simp
  from h o r1 r2 r3 show ?thesis by (intro conjI)
qed

end
